theory Spec2Isabelle
  imports Complex_Main "HOL-Library.Product_Lexorder" "HOL-Library.List_Lexorder"
    "HOL-Library.Char_ord"
begin

section \<open>Data model\<close>

text \<open>
  One row of \<^verbatim>\<open>positions_log.csv\<close> as \<^verbatim>\<open>load_data\<close> reads it. Dates are calendar days
  (a day number); the numeric cells hold finite numbers and arithmetic on them is exact.
  The column \<^verbatim>\<open>type\<close> is kept as the string the file holds.
\<close>

type_synonym date = nat

record position =
  date :: date
  ticker :: string
  underlying :: string
  type :: string
  quantity :: real
  price_today :: real
  delta :: real
  vega :: real

section \<open>Signed exposures\<close>

text \<open>\<^verbatim>\<open>np.where(df["type"] == "short", -1.0, 1.0)\<close>, written three times in the source
  (for \<^verbatim>\<open>pos_greeks\<close>, for \<^verbatim>\<open>today\<close>/\<^verbatim>\<open>prev\<close> and for \<^verbatim>\<open>pos_today\<close>).\<close>

definition sign :: "position \<Rightarrow> real" where
  "sign r = (if type r = ''short'' then - 1 else 1)"

definition qty_signed :: "position \<Rightarrow> real" where
  "qty_signed r = quantity r * sign r"

text \<open>Columns of \<^verbatim>\<open>pos_greeks\<close>.\<close>

definition delta_exposure :: "position \<Rightarrow> real" where
  "delta_exposure r = delta r * qty_signed r"

definition vega_exposure :: "position \<Rightarrow> real" where
  "vega_exposure r = vega r * qty_signed r"

text \<open>Columns of \<^verbatim>\<open>today\<close> and \<^verbatim>\<open>prev\<close> (and of \<^verbatim>\<open>pos_today\<close>).\<close>

definition delta_signed :: "position \<Rightarrow> real" where
  "delta_signed r = delta r * sign r"

definition vega_signed :: "position \<Rightarrow> real" where
  "vega_signed r = vega r * sign r"

definition mv_signed :: "position \<Rightarrow> real" where
  "mv_signed r = price_today r * qty_signed r"

section \<open>Values of a numeric column\<close>

text \<open>
  A computed column can hold a number, an infinity or NaN (pandas' missing value). The
  operations follow IEEE 754 on these four kinds of value, without rounding or overflow and
  with a single unsigned zero.
\<close>

datatype fnum = Fin real | PInf | NInf | NaN

definition isna :: "fnum \<Rightarrow> bool" where
  "isna x = (x = NaN)"

fun isfin :: "fnum \<Rightarrow> bool" where
  "isfin (Fin x) = True"
| "isfin x = False"

fun fneg :: "fnum \<Rightarrow> fnum" where
  "fneg (Fin x) = Fin (- x)"
| "fneg PInf = NInf"
| "fneg NInf = PInf"
| "fneg NaN = NaN"

fun fadd :: "fnum \<Rightarrow> fnum \<Rightarrow> fnum" where
  "fadd (Fin x) (Fin y) = Fin (x + y)"
| "fadd NaN y = NaN"
| "fadd x NaN = NaN"
| "fadd PInf NInf = NaN"
| "fadd NInf PInf = NaN"
| "fadd PInf y = PInf"
| "fadd x PInf = PInf"
| "fadd NInf y = NInf"
| "fadd x NInf = NInf"

definition fsub :: "fnum \<Rightarrow> fnum \<Rightarrow> fnum" where
  "fsub x y = fadd x (fneg y)"

text \<open>The sign of an infinity times a number: \<open>inf * 0\<close> is NaN.\<close>

fun inf_times :: "fnum \<Rightarrow> real \<Rightarrow> fnum" where
  "inf_times i y = (if y = 0 then NaN else if 0 < y then i else fneg i)"

fun fmul :: "fnum \<Rightarrow> fnum \<Rightarrow> fnum" where
  "fmul (Fin x) (Fin y) = Fin (x * y)"
| "fmul NaN y = NaN"
| "fmul x NaN = NaN"
| "fmul PInf (Fin y) = inf_times PInf y"
| "fmul NInf (Fin y) = inf_times NInf y"
| "fmul (Fin x) PInf = inf_times PInf x"
| "fmul (Fin x) NInf = inf_times NInf x"
| "fmul PInf PInf = PInf"
| "fmul NInf NInf = PInf"
| "fmul PInf NInf = NInf"
| "fmul NInf PInf = NInf"

text \<open>Division: a nonzero number over zero is an infinity, \<open>0 / 0\<close> and \<open>inf / inf\<close> are
  NaN, a number over an infinity is zero.\<close>

fun fdiv :: "fnum \<Rightarrow> fnum \<Rightarrow> fnum" where
  "fdiv (Fin x) (Fin y) =
     (if y \<noteq> 0 then Fin (x / y) else if 0 < x then PInf else if x < 0 then NInf else NaN)"
| "fdiv NaN y = NaN"
| "fdiv x NaN = NaN"
| "fdiv (Fin x) PInf = Fin 0"
| "fdiv (Fin x) NInf = Fin 0"
| "fdiv PInf (Fin y) = (if 0 \<le> y then PInf else NInf)"
| "fdiv NInf (Fin y) = (if 0 \<le> y then NInf else PInf)"
| "fdiv PInf PInf = NaN"
| "fdiv PInf NInf = NaN"
| "fdiv NInf PInf = NaN"
| "fdiv NInf NInf = NaN"

fun fsqrt :: "fnum \<Rightarrow> fnum" where
  "fsqrt (Fin x) = (if 0 \<le> x then Fin (sqrt x) else NaN)"
| "fsqrt PInf = PInf"
| "fsqrt NInf = NaN"
| "fsqrt NaN = NaN"

text \<open>Comparisons: every comparison with NaN is false, except \<open>!=\<close>, which is true.\<close>

fun fless :: "fnum \<Rightarrow> fnum \<Rightarrow> bool" where
  "fless (Fin x) (Fin y) = (x < y)"
| "fless NaN y = False"
| "fless x NaN = False"
| "fless x NInf = False"
| "fless PInf y = False"
| "fless NInf y = True"
| "fless x PInf = True"

definition fgt :: "fnum \<Rightarrow> fnum \<Rightarrow> bool" where
  "fgt x y = fless y x"

definition fne :: "fnum \<Rightarrow> fnum \<Rightarrow> bool" where
  "fne x y = (isna x \<or> isna y \<or> x \<noteq> y)"

text \<open>\<^verbatim>\<open>sum()\<close> of a column skips NaN.\<close>

primrec nansum :: "fnum list \<Rightarrow> fnum" where
  "nansum [] = Fin 0"
| "nansum (x # xs) = (if isna x then nansum xs else fadd x (nansum xs))"

text \<open>\<^verbatim>\<open>cumsum()\<close> leaves NaN where it stands and carries the running sum past it.\<close>

primrec cumsum_from :: "fnum \<Rightarrow> fnum list \<Rightarrow> fnum list" where
  "cumsum_from acc [] = []"
| "cumsum_from acc (x # xs) =
     (if isna x then NaN # cumsum_from acc xs
      else fadd acc x # cumsum_from (fadd acc x) xs)"

definition cumsum :: "fnum list \<Rightarrow> fnum list" where
  "cumsum xs = cumsum_from (Fin 0) xs"

section \<open>Frames and series\<close>

text \<open>
  A frame is the list of its rows, a series the list of its (index, value) pairs, a column
  a function on rows. \<^verbatim>\<open>sort_values\<close> on several columns is stable.
\<close>

definition sort_values :: "('r \<Rightarrow> 'k::linorder) \<Rightarrow> 'r list \<Rightarrow> 'r list" where
  "sort_values key df = sort_key key df"

text \<open>\<^verbatim>\<open>unique()\<close> keeps the first occurrence of every value, in order of appearance.\<close>

definition unique :: "'a list \<Rightarrow> 'a list" where
  "unique xs = rev (remdups (rev xs))"

text \<open>\<^verbatim>\<open>groupby(key)\<close>: the groups in ascending order of their key, each with its rows in
  frame order; no group is empty. \<^verbatim>\<open>first()\<close> and \<^verbatim>\<open>last\<close> take the first and the last cell
  of a group that is not missing, which is the cell of its first and of its last row, since
  the log has no missing cell.\<close>

definition groupby :: "('r \<Rightarrow> 'k::linorder) \<Rightarrow> 'r list \<Rightarrow> ('k \<times> 'r list) list" where
  "groupby key df = map (\<lambda>k. (k, filter (\<lambda>r. key r = k) df)) (sort (remdups (map key df)))"

definition groupby_sum :: "('r \<Rightarrow> 'k::linorder) \<Rightarrow> ('r \<Rightarrow> real) \<Rightarrow> 'r list \<Rightarrow> ('k \<times> real) list" where
  "groupby_sum key col df = map (\<lambda>(k, g). (k, sum_list (map col g))) (groupby key df)"

definition groupby_first :: "('r \<Rightarrow> 'k::linorder) \<Rightarrow> ('r \<Rightarrow> 'v) \<Rightarrow> 'r list \<Rightarrow> ('k \<times> 'v) list" where
  "groupby_first key col df = map (\<lambda>(k, g). (k, col (hd g))) (groupby key df)"

definition groupby_last :: "('r \<Rightarrow> 'k::linorder) \<Rightarrow> ('r \<Rightarrow> 'v) \<Rightarrow> 'r list \<Rightarrow> ('k \<times> 'v) list" where
  "groupby_last key col df = map (\<lambda>(k, g). (k, col (last g))) (groupby key df)"

definition groupby_nansum :: "('r \<Rightarrow> 'k::linorder) \<Rightarrow> ('r \<Rightarrow> fnum) \<Rightarrow> 'r list \<Rightarrow> ('k \<times> fnum) list" where
  "groupby_nansum key col df = map (\<lambda>(k, g). (k, nansum (map col g))) (groupby key df)"

text \<open>\<^verbatim>\<open>shift(1)\<close> of a series: every value moves one place down, the first place is NaN.\<close>

definition shift :: "('k \<times> real) list \<Rightarrow> ('k \<times> fnum) list" where
  "shift s = zip (map fst s) (NaN # map (\<lambda>(k, v). Fin v) (butlast s))"

text \<open>\<^verbatim>\<open>groupby(key)[col].shift(1)\<close>: every row gets the value of the row before it in its
  own group, NaN when it is the first of its group. The loop carries, per key, the value of
  the last row seen.\<close>

primrec shift_by :: "('r \<Rightarrow> 'k) \<Rightarrow> ('r \<Rightarrow> real) \<Rightarrow> ('k \<Rightarrow> fnum) \<Rightarrow> 'r list \<Rightarrow> fnum list" where
  "shift_by key col m [] = []"
| "shift_by key col m (r # rs) = m (key r) # shift_by key col (m(key r := Fin (col r))) rs"

definition groupby_shift :: "('r \<Rightarrow> 'k) \<Rightarrow> ('r \<Rightarrow> real) \<Rightarrow> 'r list \<Rightarrow> fnum list" where
  "groupby_shift key col df = shift_by key col (\<lambda>k. NaN) df"

text \<open>The first position; Python raises \<^verbatim>\<open>IndexError\<close> on an empty index.\<close>

datatype error = IndexError | EmptyWindow | NoPreviousDay

section \<open>Daily PnL engine\<close>

text \<open>\<^verbatim>\<open>load_data\<close>: the log sorted by date, then ticker.\<close>

definition load_data :: "position list \<Rightarrow> position list" where
  "load_data rows = sort_values (\<lambda>r. (date r, ticker r)) rows"

text \<open>\<^verbatim>\<open>all_dates\<close>, and \<^verbatim>\<open>pos_dates\<close> of the daily change report.\<close>

definition all_dates :: "position list \<Rightarrow> date list" where
  "all_dates pos = unique (map date pos)"

text \<open>The series \<^verbatim>\<open>price\<close>, \<^verbatim>\<open>long_qty\<close> and \<^verbatim>\<open>short_qty\<close>, indexed by (date, ticker).\<close>

definition price :: "position list \<Rightarrow> ((date \<times> string) \<times> real) list" where
  "price pos_all = groupby_first (\<lambda>r. (date r, ticker r)) price_today pos_all"

definition long_qty :: "position list \<Rightarrow> ((date \<times> string) \<times> real) list" where
  "long_qty pos_all =
     groupby_sum (\<lambda>r. (date r, ticker r)) quantity (filter (\<lambda>r. type r = ''long'') pos_all)"

definition short_qty :: "position list \<Rightarrow> ((date \<times> string) \<times> real) list" where
  "short_qty pos_all =
     groupby_sum (\<lambda>r. (date r, ticker r)) quantity (filter (\<lambda>r. type r = ''short'') pos_all)"

text \<open>A row of \<^verbatim>\<open>daily_positions\<close> after \<^verbatim>\<open>reset_index\<close>, and with the shifted columns.\<close>

record daily_position =
  dp_date :: date
  dp_ticker :: string
  dp_price_today :: real
  dp_long_qty :: real
  dp_short_qty :: real

record daily_position_prev = daily_position +
  prev_long_qty :: fnum
  prev_short_qty :: fnum
  prev_price :: fnum

text \<open>\<^verbatim>\<open>fillna\<close> on a cell that a concatenation or a join left missing.\<close>

definition fillna :: "real option \<Rightarrow> real \<Rightarrow> real" where
  "fillna v d = (case v of None \<Rightarrow> d | Some q \<Rightarrow> q)"

text \<open>\<^verbatim>\<open>pd.concat([price, long_qty, short_qty], axis=1).fillna(0.0)\<close>: the index of
  \<^verbatim>\<open>price\<close> holds every (date, ticker) of the log, so it is the index of the result.\<close>

definition concat_positions :: "position list \<Rightarrow> daily_position list" where
  "concat_positions pos_all =
     map (\<lambda>(k, p). \<lparr>dp_date = fst k, dp_ticker = snd k, dp_price_today = p,
                       dp_long_qty = fillna (map_of (long_qty pos_all) k) 0,
                       dp_short_qty = fillna (map_of (short_qty pos_all) k) 0\<rparr>)
         (price pos_all)"

definition sorted_positions :: "position list \<Rightarrow> daily_position list" where
  "sorted_positions pos_all =
     sort_values (\<lambda>r. (dp_ticker r, dp_date r)) (concat_positions pos_all)"

definition daily_positions :: "position list \<Rightarrow> daily_position_prev list" where
  "daily_positions pos_all =
     (let dp = sorted_positions pos_all
      in map (\<lambda>(r, l, s, p).
                daily_position.extend r
                  \<lparr>prev_long_qty = l, prev_short_qty = s, prev_price = p\<rparr>)
           (zip dp
             (zip (groupby_shift dp_ticker dp_long_qty dp)
               (zip (groupby_shift dp_ticker dp_short_qty dp)
                    (groupby_shift dp_ticker dp_price_today dp)))))"

text \<open>The columns \<^verbatim>\<open>dP\<close>, \<^verbatim>\<open>long_pnl\<close>, \<^verbatim>\<open>short_pnl\<close> (with the overwrite under
  \<^verbatim>\<open>mask_first\<close>) and \<^verbatim>\<open>total_pnl\<close>.\<close>

definition dP :: "daily_position_prev \<Rightarrow> fnum" where
  "dP r = fsub (Fin (dp_price_today r)) (prev_price r)"

definition mask_first :: "daily_position_prev \<Rightarrow> bool" where
  "mask_first r = isna (prev_price r)"

definition long_pnl :: "daily_position_prev \<Rightarrow> fnum" where
  "long_pnl r = (if mask_first r then Fin 0 else fmul (prev_long_qty r) (dP r))"

definition short_pnl :: "daily_position_prev \<Rightarrow> fnum" where
  "short_pnl r = (if mask_first r then Fin 0 else fmul (fneg (prev_short_qty r)) (dP r))"

definition total_pnl :: "daily_position_prev \<Rightarrow> fnum" where
  "total_pnl r = fadd (long_pnl r) (short_pnl r)"

text \<open>Portfolio level, over the full history.\<close>

definition daily_long_pnl_all :: "position list \<Rightarrow> (date \<times> fnum) list" where
  "daily_long_pnl_all pos_all = groupby_nansum dp_date long_pnl (daily_positions pos_all)"

definition daily_short_pnl_all :: "position list \<Rightarrow> (date \<times> fnum) list" where
  "daily_short_pnl_all pos_all = groupby_nansum dp_date short_pnl (daily_positions pos_all)"

definition daily_total_pnl_all :: "position list \<Rightarrow> (date \<times> fnum) list" where
  "daily_total_pnl_all pos_all = groupby_nansum dp_date total_pnl (daily_positions pos_all)"

text \<open>\<^verbatim>\<open>daily_total_pnl_all.index[0]\<close> raises on an empty history.\<close>

definition first_date_all :: "position list \<Rightarrow> error + date" where
  "first_date_all pos_all =
     (case daily_total_pnl_all pos_all of [] \<Rightarrow> Inl IndexError | (d, v) # s \<Rightarrow> Inr d)"

definition first_day_all :: "position list \<Rightarrow> date \<Rightarrow> daily_position_prev list" where
  "first_day_all pos_all d = filter (\<lambda>r. dp_date r = d) (daily_positions pos_all)"

definition long_initial_cap_all :: "position list \<Rightarrow> date \<Rightarrow> real" where
  "long_initial_cap_all pos_all d =
     sum_list (map (\<lambda>r. dp_long_qty r * dp_price_today r) (first_day_all pos_all d))"

definition short_initial_cap_all :: "position list \<Rightarrow> date \<Rightarrow> real" where
  "short_initial_cap_all pos_all d =
     sum_list (map (\<lambda>r. dp_short_qty r * dp_price_today r) (first_day_all pos_all d))"

definition capital_base_all :: "position list \<Rightarrow> error + real" where
  "capital_base_all pos_all =
     (case first_date_all pos_all of
        Inl e \<Rightarrow> Inl e
      | Inr d \<Rightarrow> Inr (long_initial_cap_all pos_all d + short_initial_cap_all pos_all d))"

definition equity_all :: "position list \<Rightarrow> error + (date \<times> fnum) list" where
  "equity_all pos_all =
     (case capital_base_all pos_all of
        Inl e \<Rightarrow> Inl e
      | Inr c \<Rightarrow>
          Inr (zip (map fst (daily_total_pnl_all pos_all))
                   (map (fadd (Fin c)) (cumsum (map snd (daily_total_pnl_all pos_all))))))"

section \<open>Net exposures and hedge flags\<close>

definition net_greeks :: "position list \<Rightarrow> (date \<times> real \<times> real) list" where
  "net_greeks pos_greeks =
     map (\<lambda>(d, g). (d, sum_list (map delta_exposure g), sum_list (map vega_exposure g)))
         (groupby date pos_greeks)"

definition spy_hedge :: "position list \<Rightarrow> (date \<times> real) list" where
  "spy_hedge pos_greeks =
     groupby_sum date qty_signed (filter (\<lambda>r. ticker r = ''SPY_HEDGE_STOCK'') pos_greeks)"

text \<open>\<^verbatim>\<open>spy_hedge.ne(spy_hedge.shift()).fillna(False)\<close>: the comparison gives a boolean
  column, in which \<^verbatim>\<open>fillna\<close> finds nothing to fill.\<close>

definition delta_hedge_flags :: "position list \<Rightarrow> (date \<times> bool) list" where
  "delta_hedge_flags pos_greeks =
     map (\<lambda>((d, v), (d', pv)). (d, fne (Fin v) pv))
         (zip (spy_hedge pos_greeks) (shift (spy_hedge pos_greeks)))"

definition spy_opts :: "position list \<Rightarrow> position list" where
  "spy_opts pos_greeks =
     filter (\<lambda>r. underlying r = ''SPY'' \<and> ticker r \<noteq> ''SPY_HEDGE_STOCK'') pos_greeks"

definition total_spy_qty :: "position list \<Rightarrow> (date \<times> real) list" where
  "total_spy_qty pos_greeks = groupby_sum date qty_signed (spy_opts pos_greeks)"

text \<open>\<^verbatim>\<open>diff()\<close>: every value minus the one before it.\<close>

definition diff :: "('k \<times> real) list \<Rightarrow> ('k \<times> fnum) list" where
  "diff s = map (\<lambda>((d, v), (d', pv)). (d, fsub (Fin v) pv)) (zip s (shift s))"

definition spy_qty_diff :: "position list \<Rightarrow> (date \<times> fnum) list" where
  "spy_qty_diff pos_greeks = diff (total_spy_qty pos_greeks)"

definition vega_hedge_flags :: "position list \<Rightarrow> (date \<times> bool) list" where
  "vega_hedge_flags pos_greeks =
     (if spy_opts pos_greeks \<noteq> []
      then map (\<lambda>(d, x). (d, fgt x (Fin (1 / 10 ^ 8)))) (spy_qty_diff pos_greeks)
      else map (\<lambda>(d, x). (d, False)) (net_greeks pos_greeks))"

text \<open>\<^verbatim>\<open>reindex(index, fill_value=False)\<close>.\<close>

definition reindex :: "('k \<times> bool) list \<Rightarrow> 'k list \<Rightarrow> ('k \<times> bool) list" where
  "reindex s idx = map (\<lambda>k. (k, case map_of s k of None \<Rightarrow> False | Some b \<Rightarrow> b)) idx"

record net_greeks_row =
  ng_date :: date
  net_delta :: real
  net_vega :: real
  delta_hedge :: bool
  vega_hedge :: bool

definition net_greeks_df :: "position list \<Rightarrow> net_greeks_row list" where
  "net_greeks_df pos_greeks =
     (let idx = map fst (net_greeks pos_greeks)
      in map (\<lambda>((d, nd, nv), (d1, dh), (d2, vh)).
                \<lparr>ng_date = d, net_delta = nd, net_vega = nv, delta_hedge = dh, vega_hedge = vh\<rparr>)
           (zip (net_greeks pos_greeks)
             (zip (reindex (delta_hedge_flags pos_greeks) idx)
                  (reindex (vega_hedge_flags pos_greeks) idx))))"

section \<open>Window performance\<close>

definition mask_window :: "date \<times> date \<Rightarrow> date \<Rightarrow> bool" where
  "mask_window date_range d = (fst date_range \<le> d \<and> d \<le> snd date_range)"

definition equity_window :: "position list \<Rightarrow> date \<times> date \<Rightarrow> error + (date \<times> fnum) list" where
  "equity_window pos_all date_range =
     (case equity_all pos_all of
        Inl e \<Rightarrow> Inl e
      | Inr eq \<Rightarrow> Inr (filter (\<lambda>(d, v). mask_window date_range d) eq))"

text \<open>The script stops with an error message when the window is empty, so what follows
  runs on a window with a first value.\<close>

definition equity_rebased :: "fnum list \<Rightarrow> fnum list" where
  "equity_rebased ew = map (\<lambda>e. fdiv e (hd ew)) ew"

text \<open>\<^verbatim>\<open>pct_change()\<close>: every value over the one before it, minus one; NaN in the first
  place. (A rebased window has a missing value only when its first equity value is zero,
  and then every quotient of neighbours is NaN whether or not missing values are filled
  forward first.)\<close>

definition pct_change :: "fnum list \<Rightarrow> fnum list" where
  "pct_change xs =
     (case xs of [] \<Rightarrow> []
      | x # ys \<Rightarrow> NaN # map (\<lambda>(p, c). fsub (fdiv c p) (Fin 1)) (zip xs ys))"

definition dropna :: "fnum list \<Rightarrow> fnum list" where
  "dropna xs = filter (\<lambda>x. \<not> isna x) xs"

definition daily_ret :: "fnum list \<Rightarrow> fnum list" where
  "daily_ret ew = dropna (pct_change (equity_rebased ew))"

text \<open>\<^verbatim>\<open>mean()\<close> and \<^verbatim>\<open>std()\<close> (sample standard deviation, one degree of freedom less
  than the count) over the values that are not NaN.\<close>

primrec fsum :: "fnum list \<Rightarrow> fnum" where
  "fsum [] = Fin 0"
| "fsum (x # xs) = fadd x (fsum xs)"

definition mean :: "fnum list \<Rightarrow> fnum" where
  "mean xs = (let ys = dropna xs in fdiv (fsum ys) (Fin (real (length ys))))"

definition var :: "fnum list \<Rightarrow> fnum" where
  "var xs =
     (let ys = dropna xs; avg = mean xs
      in if length ys \<le> 1 then NaN
         else fdiv (fsum (map (\<lambda>x. fmul (fsub avg x) (fsub avg x)) ys))
                   (Fin (real (length ys - 1))))"

definition std :: "fnum list \<Rightarrow> fnum" where
  "std xs = fsqrt (var xs)"

definition sharpe_3m :: "fnum list \<Rightarrow> fnum" where
  "sharpe_3m ew =
     (if length (daily_ret ew) > 1 \<and> fne (std (daily_ret ew)) (Fin 0)
      then fmul (fdiv (mean (daily_ret ew)) (std (daily_ret ew))) (Fin (sqrt 252))
      else NaN)"

text \<open>\<^verbatim>\<open>cummax()\<close>: the running maximum of the values that are not NaN; NaN stays NaN.\<close>

primrec cummax_from :: "fnum \<Rightarrow> fnum list \<Rightarrow> fnum list" where
  "cummax_from m [] = []"
| "cummax_from m (x # xs) =
     (if isna x then NaN # cummax_from m xs
      else (if fless m x then x else m) # cummax_from (if fless m x then x else m) xs)"

definition cummax :: "fnum list \<Rightarrow> fnum list" where
  "cummax xs = cummax_from NInf xs"

text \<open>\<^verbatim>\<open>min()\<close> over the values that are not NaN; NaN when there is none.\<close>

primrec fmin_list :: "fnum \<Rightarrow> fnum list \<Rightarrow> fnum" where
  "fmin_list m [] = m"
| "fmin_list m (x # xs) = fmin_list (if fless x m then x else m) xs"

definition nanmin :: "fnum list \<Rightarrow> fnum" where
  "nanmin xs = (case dropna xs of [] \<Rightarrow> NaN | y # ys \<Rightarrow> fmin_list y ys)"

definition rolling_max :: "fnum list \<Rightarrow> fnum list" where
  "rolling_max ew = cummax (equity_rebased ew)"

definition dd :: "fnum list \<Rightarrow> fnum list" where
  "dd ew = map (\<lambda>(r, m). fsub (fdiv r m) (Fin 1)) (zip (equity_rebased ew) (rolling_max ew))"

definition max_dd :: "fnum list \<Rightarrow> fnum" where
  "max_dd ew = (if dd ew \<noteq> [] then nanmin (dd ew) else NaN)"

text \<open>The metrics of a window of the history: the error of an empty history, the stop on
  an empty window, or Sharpe ratio and maximal drawdown.\<close>

definition window_metrics :: "position list \<Rightarrow> date \<times> date \<Rightarrow> error + fnum \<times> fnum" where
  "window_metrics pos_all date_range =
     (case equity_window pos_all date_range of
        Inl e \<Rightarrow> Inl e
      | Inr w \<Rightarrow>
          if w = [] then Inl EmptyWindow
          else Inr (sharpe_3m (map snd w), max_dd (map snd w)))"

section \<open>Daily change report\<close>

text \<open>\<^verbatim>\<open>sorted(pos["date"].dt.date.unique())\<close>.\<close>

definition pos_dates :: "position list \<Rightarrow> date list" where
  "pos_dates pos = sort (unique (map date pos))"

text \<open>\<^verbatim>\<open>list.index\<close> of a value that is in the list: the place of its first occurrence.\<close>

definition index_of :: "'a list \<Rightarrow> 'a \<Rightarrow> nat" where
  "index_of xs x = length (takeWhile (\<lambda>y. y \<noteq> x) xs)"

text \<open>The guard of the report and \<^verbatim>\<open>prev_date\<close>; the message "Cannot compute daily changes
  for this date (no previous day)" is the error \<open>NoPreviousDay\<close>.\<close>

definition prev_date :: "position list \<Rightarrow> date \<Rightarrow> error + date" where
  "prev_date pos inspect_date =
     (if inspect_date \<notin> set (pos_dates pos) \<or> index_of (pos_dates pos) inspect_date = 0
      then Inl NoPreviousDay
      else Inr (pos_dates pos ! (index_of (pos_dates pos) inspect_date - 1)))"

record today_agg_row =
  Ticker :: string
  underlying_tdy :: string
  qty_tdy :: real
  price_today_tdy :: real
  delta_tdy :: real
  vega_tdy :: real
  value_today :: real

text \<open>The columns of \<^verbatim>\<open>prev_agg\<close>, which is indexed by ticker; the names carry \<open>agg_\<close>
  here because \<^verbatim>\<open>merged\<close> has columns of the same names.\<close>

record prev_agg_row =
  agg_qty_prv :: real
  agg_price_today_prv :: real
  agg_delta_prv :: real
  agg_vega_prv :: real
  agg_value_prev :: real

record merged_row = today_agg_row +
  qty_prv :: real
  price_today_prv :: real
  delta_prv :: real
  vega_prv :: real
  value_prev :: real

definition today_agg :: "position list \<Rightarrow> today_agg_row list" where
  "today_agg today =
     map (\<lambda>(k, g). \<lparr>Ticker = k, underlying_tdy = underlying (last g),
                       qty_tdy = sum_list (map qty_signed g),
                       price_today_tdy = price_today (last g),
                       delta_tdy = sum_list (map delta_signed g),
                       vega_tdy = sum_list (map vega_signed g),
                       value_today = sum_list (map mv_signed g)\<rparr>)
         (groupby ticker today)"

definition prev_agg :: "position list \<Rightarrow> (string \<times> prev_agg_row) list" where
  "prev_agg prev =
     map (\<lambda>(k, g). (k, \<lparr>agg_qty_prv = sum_list (map qty_signed g),
                           agg_price_today_prv = price_today (last g),
                           agg_delta_prv = sum_list (map delta_signed g),
                           agg_vega_prv = sum_list (map vega_signed g),
                           agg_value_prev = sum_list (map mv_signed g)\<rparr>))
         (groupby ticker prev)"

text \<open>\<^verbatim>\<open>today_agg.join(prev_agg, how="left")\<close> and the five \<^verbatim>\<open>fillna\<close> that follow: a ticker
  without a row in \<^verbatim>\<open>prev_agg\<close> has its five joined cells missing.\<close>

definition merged :: "today_agg_row list \<Rightarrow> (string \<times> prev_agg_row) list \<Rightarrow> merged_row list" where
  "merged ta pa =
     map (\<lambda>t. let j = map_of pa (Ticker t)
              in today_agg_row.extend t
                   \<lparr>qty_prv = fillna (map_option agg_qty_prv j) 0,
                    price_today_prv = fillna (map_option agg_price_today_prv j) (price_today_tdy t),
                    delta_prv = fillna (map_option agg_delta_prv j) 0,
                    vega_prv = fillna (map_option agg_vega_prv j) 0,
                    value_prev = fillna (map_option agg_value_prev j) 0\<rparr>)
         ta"

definition price_change :: "merged_row \<Rightarrow> real" where
  "price_change m = price_today_tdy m - price_today_prv m"

definition quantity_change :: "merged_row \<Rightarrow> real" where
  "quantity_change m = qty_tdy m - qty_prv m"

definition delta_change :: "merged_row \<Rightarrow> real" where
  "delta_change m = delta_tdy m - delta_prv m"

definition vega_change :: "merged_row \<Rightarrow> real" where
  "vega_change m = vega_tdy m - vega_prv m"

definition value_change :: "merged_row \<Rightarrow> real" where
  "value_change m = qty_prv m * price_change m"

definition classify_net_type :: "real \<Rightarrow> string" where
  "classify_net_type q = (if q > 0 then ''net_long'' else if q < 0 then ''net_short'' else ''flat'')"

definition today :: "position list \<Rightarrow> date \<Rightarrow> position list" where
  "today pos inspect_date = filter (\<lambda>r. date r = inspect_date) pos"

definition daily_changes :: "position list \<Rightarrow> date \<Rightarrow> error + merged_row list" where
  "daily_changes pos inspect_date =
     (case prev_date pos inspect_date of
        Inl e \<Rightarrow> Inl e
      | Inr pd \<Rightarrow> Inr (merged (today_agg (today pos inspect_date)) (prev_agg (today pos pd))))"

text \<open>The positions table of the inspected date, which the script builds after the change
  report whatever the report gave: \<open>None\<close> is the message "No positions to show for this
  date", otherwise the rows with \<^verbatim>\<open>delta\<close> and \<^verbatim>\<open>vega\<close> overwritten by their signed values
  (before the display sorts them by underlying).\<close>

definition pos_today :: "position list \<Rightarrow> date \<Rightarrow> position list option" where
  "pos_today pos inspect_date =
     (if today pos inspect_date = [] then None
      else Some (map (\<lambda>r. r\<lparr>delta := delta_signed r, vega := vega_signed r\<rparr>)
                     (today pos inspect_date)))"

section \<open>The record before\<close>

text \<open>\<open>p\<close> is the value immediately before \<open>k\<close> among the values \<open>ks\<close>: it occurs,
  it is smaller, and no value of \<open>ks\<close> lies strictly between the two.\<close>

definition prior_in :: "'a::linorder list \<Rightarrow> 'a \<Rightarrow> 'a \<Rightarrow> bool" where
  "prior_in ks p k = (p \<in> set ks \<and> p < k \<and> (\<forall>x\<in>set ks. \<not> (p < x \<and> x < k)))"

section \<open>What the log holds for a ticker on a date\<close>

text \<open>The quantities of the specification, read off the log directly: the records of a
  ticker on a date, the sum of the long and of the short quantities among them, and the
  price of the first of them.\<close>

definition rows_on :: "position list \<Rightarrow> date \<Rightarrow> string \<Rightarrow> position list" where
  "rows_on pos d t = filter (\<lambda>x. date x = d \<and> ticker x = t) pos"

definition long_qty_on :: "position list \<Rightarrow> date \<Rightarrow> string \<Rightarrow> real" where
  "long_qty_on pos d t =
     sum_list (map quantity (filter (\<lambda>x. type x = ''long'') (rows_on pos d t)))"

definition short_qty_on :: "position list \<Rightarrow> date \<Rightarrow> string \<Rightarrow> real" where
  "short_qty_on pos d t =
     sum_list (map quantity (filter (\<lambda>x. type x = ''short'') (rows_on pos d t)))"

definition price_on :: "position list \<Rightarrow> date \<Rightarrow> string \<Rightarrow> real" where
  "price_on pos d t = price_today (hd (rows_on pos d t))"

text \<open>The sort key of \<^verbatim>\<open>daily_positions\<close>, and "row \<open>i\<close> comes right after a row of its own
  ticker".\<close>

abbreviation tkey :: "daily_position \<Rightarrow> string \<times> date" where
  "tkey r \<equiv> (dp_ticker r, dp_date r)"

definition follows :: "daily_position list \<Rightarrow> nat \<Rightarrow> bool" where
  "follows sp i = (0 < i \<and> dp_ticker (sp ! (i - 1)) = dp_ticker (sp ! i))"

text \<open>The tickers recorded on a date, each once.\<close>

definition tickers_on :: "position list \<Rightarrow> date \<Rightarrow> string list" where
  "tickers_on pos d = remdups (map ticker (filter (\<lambda>x. date x = d) pos))"

text \<open>The summed signed quantity of some records on a date, and the cell that
  \<^verbatim>\<open>reindex\<close> reads for a key.\<close>

definition signed_qty_on :: "position list \<Rightarrow> date \<Rightarrow> real" where
  "signed_qty_on rows d = sum_list (map qty_signed (filter (\<lambda>r. date r = d) rows))"

definition lookup_flag :: "('k \<times> bool) list \<Rightarrow> 'k \<Rightarrow> bool" where
  "lookup_flag s k = (case map_of s k of None \<Rightarrow> False | Some b \<Rightarrow> b)"

text \<open>The options on SPY as the specification names them, read off the log directly
  and without the columns the script derives: the dates on which a record with underlying
  "SPY" and a ticker other than "SPY_HEDGE_STOCK" exists, and the total of the quantities
  of these records on a date, a short record counting negative.\<close>

definition spy_option_dates :: "position list \<Rightarrow> date list" where
  "spy_option_dates pos =
     map date (filter (\<lambda>r. underlying r = ''SPY'' \<and> ticker r \<noteq> ''SPY_HEDGE_STOCK'') pos)"

definition spy_option_qty :: "position list \<Rightarrow> date \<Rightarrow> real" where
  "spy_option_qty pos d =
     sum_list (map (\<lambda>r. if type r = ''short'' then - quantity r else quantity r)
       (filter (\<lambda>r. date r = d \<and> underlying r = ''SPY'' \<and> ticker r \<noteq> ''SPY_HEDGE_STOCK'')
               pos))"

text \<open>A number that is at most 0.\<close>

definition nonpos :: "fnum \<Rightarrow> bool" where
  "nonpos x = (\<exists>v. x = Fin v \<and> v \<le> 0)"

text \<open>Mean and sample standard deviation of finitely many numbers, as the specification
  of the Sharpe ratio names them.\<close>

definition mean_of :: "real list \<Rightarrow> real" where
  "mean_of rs = sum_list rs / real (length rs)"

definition stdev_of :: "real list \<Rightarrow> real" where
  "stdev_of rs = sqrt (sum_list (map (\<lambda>x. (x - mean_of rs)\<^sup>2) rs) / real (length rs - 1))"

section \<open>Example histories\<close>

text \<open>A hedge instrument held unchanged over two days.\<close>

definition log_hedge :: "position list" where
  "log_hedge =
     [\<lparr>date = 1, ticker = ''SPY_HEDGE_STOCK'', underlying = ''SPY'', type = ''short'',
       quantity = 100, price_today = 400, delta = 1, vega = 0\<rparr>,
      \<lparr>date = 2, ticker = ''SPY_HEDGE_STOCK'', underlying = ''SPY'', type = ''short'',
       quantity = 100, price_today = 401, delta = 1, vega = 0\<rparr>]"

text \<open>A ticker that appears on the second day only.\<close>

definition row_new_ticker :: position where
  "row_new_ticker =
     \<lparr>date = 2, ticker = ''BBB'', underlying = ''BBB'', type = ''short'', quantity = 4,
      price_today = 50, delta = 1 / 2, vega = 2\<rparr>"

definition log_new_ticker :: "position list" where
  "log_new_ticker =
     [\<lparr>date = 1, ticker = ''AAA'', underlying = ''AAA'', type = ''long'', quantity = 10,
       price_today = 100, delta = 1 / 2, vega = 2\<rparr>,
      \<lparr>date = 2, ticker = ''AAA'', underlying = ''AAA'', type = ''long'', quantity = 10,
       price_today = 105, delta = 1 / 2, vega = 2\<rparr>,
      row_new_ticker]"

text \<open>A ticker recorded on days 1 and 3, another one on day 2 only.\<close>

definition row_gap_first :: position where
  "row_gap_first =
     \<lparr>date = 1, ticker = ''AAA'', underlying = ''AAA'', type = ''long'', quantity = 10,
      price_today = 100, delta = 1 / 2, vega = 0\<rparr>"

definition row_gap_last :: position where
  "row_gap_last =
     \<lparr>date = 3, ticker = ''AAA'', underlying = ''AAA'', type = ''long'', quantity = 10,
      price_today = 105, delta = 1 / 2, vega = 0\<rparr>"

definition log_gap :: "position list" where
  "log_gap =
     [row_gap_first,
      \<lparr>date = 2, ticker = ''BBB'', underlying = ''BBB'', type = ''short'', quantity = 5,
       price_today = 20, delta = 1, vega = 0\<rparr>,
      row_gap_last]"

text \<open>A long option on SPY that grows from 5 to 8 on day 2 and stays on day 3, when a
  short option on SPY of 4 is added; the hedge instrument is reduced from short 100 to short
  50 on day 3, and an option on another underlying grows from 1 to 20 on day 3. The signed
  quantity of the options on SPY is 5, 8 and 4.\<close>

definition log_vega :: "position list" where
  "log_vega =
     [\<lparr>date = 1, ticker = ''SPY_C450'', underlying = ''SPY'', type = ''long'', quantity = 5,
       price_today = 12, delta = 1 / 2, vega = 3\<rparr>,
      \<lparr>date = 1, ticker = ''SPY_HEDGE_STOCK'', underlying = ''SPY'', type = ''short'',
       quantity = 100, price_today = 400, delta = 1, vega = 0\<rparr>,
      \<lparr>date = 2, ticker = ''AAPL_C150'', underlying = ''AAPL'', type = ''long'', quantity = 1,
       price_today = 7, delta = 1 / 2, vega = 2\<rparr>,
      \<lparr>date = 2, ticker = ''SPY_C450'', underlying = ''SPY'', type = ''long'', quantity = 8,
       price_today = 13, delta = 1 / 2, vega = 3\<rparr>,
      \<lparr>date = 2, ticker = ''SPY_HEDGE_STOCK'', underlying = ''SPY'', type = ''short'',
       quantity = 100, price_today = 401, delta = 1, vega = 0\<rparr>,
      \<lparr>date = 3, ticker = ''AAPL_C150'', underlying = ''AAPL'', type = ''long'', quantity = 20,
       price_today = 7, delta = 1 / 2, vega = 2\<rparr>,
      \<lparr>date = 3, ticker = ''SPY_C450'', underlying = ''SPY'', type = ''long'', quantity = 8,
       price_today = 13, delta = 1 / 2, vega = 3\<rparr>,
      \<lparr>date = 3, ticker = ''SPY_HEDGE_STOCK'', underlying = ''SPY'', type = ''short'',
       quantity = 50, price_today = 402, delta = 1, vega = 0\<rparr>,
      \<lparr>date = 3, ticker = ''SPY_P400'', underlying = ''SPY'', type = ''short'', quantity = 4,
       price_today = 9, delta = 1 / 2, vega = 3\<rparr>]"

text \<open>A short position whose price doubles on day 2: the loss of day 2 equals the capital
  base, so the equity of day 2 is zero.\<close>

definition log_wipeout :: "position list" where
  "log_wipeout =
     [\<lparr>date = 1, ticker = ''AAA'', underlying = ''AAA'', type = ''short'', quantity = 10,
       price_today = 100, delta = 1 / 2, vega = 0\<rparr>,
      \<lparr>date = 2, ticker = ''AAA'', underlying = ''AAA'', type = ''short'', quantity = 10,
       price_today = 200, delta = 1 / 2, vega = 0\<rparr>,
      \<lparr>date = 3, ticker = ''AAA'', underlying = ''AAA'', type = ''short'', quantity = 10,
       price_today = 150, delta = 1 / 2, vega = 0\<rparr>]"

text \<open>The equity of a window with daily returns of 10, 20 and 30 percent.\<close>

definition window_example :: "fnum list" where
  "window_example = [Fin 1000, Fin 1100, Fin 1320, Fin 1716]"

section \<open>Signed exposures: properties\<close>

text \<open>
  Claim C10. A record whose \<^verbatim>\<open>type\<close> is not exactly the string "short" (be it "long" or
  anything else) gets sign +1, so its signed quantity, signed delta and vega, delta and vega
  exposure and signed market value are those of a long position; the sign is always one of
  +1 and -1, no record is left without one.
\<close>

theorem sign_not_short:
  "type r \<noteq> ''short'' \<Longrightarrow>
     sign r = 1 \<and> qty_signed r = quantity r \<and>
     delta_exposure r = delta r * quantity r \<and> vega_exposure r = vega r * quantity r \<and>
     delta_signed r = delta r \<and> vega_signed r = vega r \<and>
     mv_signed r = price_today r * quantity r \<and> (sign r = 1 \<or> sign r = - 1)"
  by (simp add: sign_def qty_signed_def delta_exposure_def vega_exposure_def delta_signed_def
      vega_signed_def mv_signed_def)

theorem sign_not_short_witness:
  "type \<lparr>date = 1, ticker = ''AAA'', underlying = ''AAA'', type = ''Long '', quantity = 10,
          price_today = 100, delta = 1 / 2, vega = 2\<rparr> \<noteq> ''short'' \<and>
   sign \<lparr>date = 1, ticker = ''AAA'', underlying = ''AAA'', type = ''Long '', quantity = 10,
          price_today = 100, delta = 1 / 2, vega = 2\<rparr> = 1 \<and>
   mv_signed \<lparr>date = 1, ticker = ''AAA'', underlying = ''AAA'', type = ''Long '', quantity = 10,
          price_today = 100, delta = 1 / 2, vega = 2\<rparr> = 1000"
  using sign_not_short [of "\<lparr>date = 1, ticker = ''AAA'', underlying = ''AAA'', type = ''Long '',
          quantity = 10, price_today = 100, delta = 1 / 2, vega = 2\<rparr>"]
  by simp

section \<open>Groups\<close>

lemma groupby_keys: "map fst (groupby key df) = sort (remdups (map key df))"
  by (simp add: groupby_def comp_def)

lemma groupby_keys_set: "fst ` set (groupby key df) = key ` set df"
proof -
  have "fst ` set (groupby key df) = set (map fst (groupby key df))" by simp
  also have "\<dots> = key ` set df" by (simp only: groupby_keys) simp
  finally show ?thesis .
qed

lemma groupby_distinct: "distinct (map fst (groupby key df))"
  by (simp only: groupby_keys) simp

lemma groupby_sorted: "sorted (map fst (groupby key df))"
  by (simp only: groupby_keys) simp

lemma groupby_group:
  "(k, g) \<in> set (groupby key df) \<Longrightarrow>
     g = filter (\<lambda>r. key r = k) df \<and> g \<noteq> [] \<and> k \<in> key ` set df"
  by (auto simp: groupby_def filter_empty_conv)

lemma groupby_mem:
  "k \<in> key ` set df \<Longrightarrow> (k, filter (\<lambda>r. key r = k) df) \<in> set (groupby key df)"
  by (auto simp: groupby_def)

lemma map_of_groupby:
  "map_of (groupby key df) k =
     (if k \<in> key ` set df then Some (filter (\<lambda>r. key r = k) df) else None)"
proof (cases "k \<in> key ` set df")
  case True
  then have "(k, filter (\<lambda>r. key r = k) df) \<in> set (groupby key df)" by (rule groupby_mem)
  then show ?thesis using True groupby_distinct [of key df] by simp
next
  case False
  then have "k \<notin> fst ` set (groupby key df)" by (simp add: groupby_keys_set)
  then show ?thesis using False by (simp add: map_of_eq_None_iff)
qed

section \<open>Delta-hedge flag\<close>

text \<open>
  Claim C1. The claim has the delta-hedge flag false on the first dated record of the hedge
  instrument. The code compares the first sum with the NaN that \<^verbatim>\<open>shift\<close> puts before it,
  and \<^verbatim>\<open>!=\<close> against NaN is true, so the flag of the first record is true; the
  \<^verbatim>\<open>fillna(False)\<close> that follows meets a boolean column without a missing cell. On a hedge
  position held unchanged over two days the code flags day 1 and not day 2.
\<close>

theorem delta_hedge_first_record_flagged:
  "delta_hedge_flags log_hedge = [(1, True), (2, False)] \<and>
   map delta_hedge (net_greeks_df log_hedge) = [True, False]"
  by (simp add: log_hedge_def net_greeks_df_def net_greeks_def reindex_def vega_hedge_flags_def
      spy_opts_def delta_hedge_flags_def spy_hedge_def groupby_sum_def groupby_def shift_def
      qty_signed_def sign_def fne_def isna_def)

section \<open>Daily change report: a ticker without a previous day\<close>

lemma prev_agg_keys: "fst ` set (prev_agg prev) = ticker ` set prev"
proof -
  have "map fst (prev_agg prev) = map fst (groupby ticker prev)"
    by (simp add: prev_agg_def comp_def case_prod_unfold)
  then have "set (map fst (prev_agg prev)) = set (map fst (groupby ticker prev))" by simp
  then show ?thesis by (simp add: groupby_keys_set)
qed

lemma today_agg_tickers: "Ticker ` set (today_agg td) = ticker ` set td"
proof -
  have "map Ticker (today_agg td) = map fst (groupby ticker td)"
    by (simp add: today_agg_def comp_def case_prod_unfold)
  then have "set (map Ticker (today_agg td)) = set (map fst (groupby ticker td))" by simp
  then show ?thesis by (simp add: groupby_keys_set)
qed

lemma merged_tickers: "map Ticker (merged ta pa) = map Ticker ta"
  by (simp add: merged_def comp_def Let_def today_agg_row.defs)

lemma merged_new_ticker:
  assumes "m \<in> set (merged ta pa)" and "Ticker m \<notin> fst ` set pa"
  shows "qty_prv m = 0 \<and> delta_prv m = 0 \<and> vega_prv m = 0 \<and> value_prev m = 0 \<and>
         price_today_prv m = price_today_tdy m"
proof -
  from assms(1) obtain t where t: "t \<in> set ta"
    and m: "m = (let j = map_of pa (Ticker t)
              in today_agg_row.extend t
                   \<lparr>qty_prv = fillna (map_option agg_qty_prv j) 0,
                    price_today_prv = fillna (map_option agg_price_today_prv j) (price_today_tdy t),
                    delta_prv = fillna (map_option agg_delta_prv j) 0,
                    vega_prv = fillna (map_option agg_vega_prv j) 0,
                    value_prev = fillna (map_option agg_value_prev j) 0\<rparr>)"
    by (auto simp: merged_def)
  have tk: "Ticker m = Ticker t" by (simp add: m Let_def today_agg_row.defs)
  with assms(2) have "map_of pa (Ticker t) = None" by (simp add: map_of_eq_None_iff)
  then show ?thesis by (simp add: m fillna_def today_agg_row.defs)
qed

text \<open>
  Claim C8. When the change report of date \<open>d\<close> is computed against the previous date
  \<open>pd\<close>, a ticker with a record on \<open>d\<close> and none on \<open>pd\<close> has a row in the report, and in
  every such row the previous quantity, delta, vega and value are 0, the previous price is
  today's price, and price change and value change are 0.
\<close>

theorem new_ticker_zero_change:
  assumes "prev_date pos d = Inr pd"
    and "r \<in> set pos" and "date r = d"
    and "\<forall>q\<in>set pos. date q = pd \<longrightarrow> ticker q \<noteq> ticker r"
  shows "\<exists>ms. daily_changes pos d = Inr ms \<and> (\<exists>m\<in>set ms. Ticker m = ticker r) \<and>
           (\<forall>m\<in>set ms. Ticker m = ticker r \<longrightarrow>
              qty_prv m = 0 \<and> delta_prv m = 0 \<and> vega_prv m = 0 \<and> value_prev m = 0 \<and>
              price_today_prv m = price_today_tdy m \<and> price_change m = 0 \<and> value_change m = 0)"
proof -
  let ?ms = "merged (today_agg (today pos d)) (prev_agg (today pos pd))"
  have dc: "daily_changes pos d = Inr ?ms" by (simp add: daily_changes_def assms(1))
  have "ticker r \<in> ticker ` set (today pos d)" using assms(2,3) by (auto simp: today_def)
  then have "ticker r \<in> Ticker ` set (today_agg (today pos d))" by (simp only: today_agg_tickers)
  then have "ticker r \<in> set (map Ticker ?ms)" by (simp only: merged_tickers) simp
  then have ex: "\<exists>m\<in>set ?ms. Ticker m = ticker r" by auto
  have absent: "ticker r \<notin> fst ` set (prev_agg (today pos pd))"
    using assms(4) by (auto simp: prev_agg_keys today_def)
  have "\<forall>m\<in>set ?ms. Ticker m = ticker r \<longrightarrow>
              qty_prv m = 0 \<and> delta_prv m = 0 \<and> vega_prv m = 0 \<and> value_prev m = 0 \<and>
              price_today_prv m = price_today_tdy m \<and> price_change m = 0 \<and> value_change m = 0"
  proof (intro ballI impI)
    fix m assume "m \<in> set ?ms" and "Ticker m = ticker r"
    with absent have "qty_prv m = 0 \<and> delta_prv m = 0 \<and> vega_prv m = 0 \<and> value_prev m = 0 \<and>
         price_today_prv m = price_today_tdy m"
      by (intro merged_new_ticker [of m "today_agg (today pos d)" "prev_agg (today pos pd)"])
        simp_all
    then show "qty_prv m = 0 \<and> delta_prv m = 0 \<and> vega_prv m = 0 \<and> value_prev m = 0 \<and>
              price_today_prv m = price_today_tdy m \<and> price_change m = 0 \<and> value_change m = 0"
      by (simp add: price_change_def value_change_def)
  qed
  with dc ex show ?thesis by blast
qed

theorem new_ticker_zero_change_witness:
  "prev_date log_new_ticker 2 = Inr 1 \<and> row_new_ticker \<in> set log_new_ticker \<and>
   date row_new_ticker = 2 \<and> ticker row_new_ticker \<notin> ticker ` set (today log_new_ticker 1) \<and>
   (\<exists>ms m. daily_changes log_new_ticker 2 = Inr ms \<and> m \<in> set ms \<and> Ticker m = ''BBB'' \<and>
      qty_prv m = 0 \<and> delta_prv m = 0 \<and> vega_prv m = 0 \<and> value_prev m = 0 \<and>
      price_today_prv m = price_today_tdy m \<and> price_change m = 0 \<and> value_change m = 0)"
proof -
  have h1: "prev_date log_new_ticker 2 = Inr 1"
    by (simp add: log_new_ticker_def row_new_ticker_def prev_date_def pos_dates_def unique_def
        index_of_def)
  have h2: "row_new_ticker \<in> set log_new_ticker" by (simp add: log_new_ticker_def)
  have h3: "date row_new_ticker = 2" by (simp add: row_new_ticker_def)
  have h4: "\<forall>q\<in>set log_new_ticker. date q = 1 \<longrightarrow> ticker q \<noteq> ticker row_new_ticker"
    by (simp add: log_new_ticker_def row_new_ticker_def)
  have h5: "ticker row_new_ticker \<notin> ticker ` set (today log_new_ticker 1)"
    using h4 by (auto simp: today_def)
  have t: "ticker row_new_ticker = ''BBB''" by (simp add: row_new_ticker_def)
  show ?thesis
    using new_ticker_zero_change [OF h1 h2 h3 h4] h1 h2 h3 h5 unfolding t by blast
qed

section \<open>Predecessors in a sorted index\<close>

lemma strict_nth_less_iff:
  assumes "sorted_wrt (<) (ks :: 'a::linorder list)" "i < length ks" "j < length ks"
  shows "ks ! i < ks ! j \<longleftrightarrow> i < j"
proof
  assume "i < j" then show "ks ! i < ks ! j" using assms by (simp add: sorted_wrt_nth_less)
next
  assume l: "ks ! i < ks ! j"
  show "i < j"
  proof (rule ccontr)
    assume "\<not> i < j"
    then have "j = i \<or> j < i" by auto
    then show False
    proof
      assume "j = i" with l show False by simp
    next
      assume "j < i" then have "ks ! j < ks ! i" using assms by (simp add: sorted_wrt_nth_less)
      with l show False by simp
    qed
  qed
qed

lemma prior_in_sorted:
  assumes s: "sorted_wrt (<) (ks :: 'a::linorder list)" and i: "i < length ks"
  shows "prior_in ks p (ks ! i) \<longleftrightarrow> (0 < i \<and> p = ks ! (i - 1))"
proof
  assume pr: "prior_in ks p (ks ! i)"
  then obtain j where j: "j < length ks" and pj: "p = ks ! j"
    by (auto simp: prior_in_def in_set_conv_nth)
  from pr have "ks ! j < ks ! i" by (simp add: prior_in_def pj)
  then have ji: "j < i" using strict_nth_less_iff [OF s j i] by simp
  have "\<not> j < i - 1"
  proof
    assume lt: "j < i - 1"
    have i1: "i - 1 < length ks" using i by simp
    have a: "ks ! j < ks ! (i - 1)" using strict_nth_less_iff [OF s j i1] lt by simp
    have b: "ks ! (i - 1) < ks ! i" using strict_nth_less_iff [OF s i1 i] ji by simp
    have "ks ! (i - 1) \<in> set ks" using i1 by simp
    with pr a b show False by (auto simp: prior_in_def pj)
  qed
  with ji have "j = i - 1" by simp
  with ji pj show "0 < i \<and> p = ks ! (i - 1)" by simp
next
  assume h: "0 < i \<and> p = ks ! (i - 1)"
  have i1: "i - 1 < length ks" using i by simp
  have mem: "p \<in> set ks" using h i1 by simp
  have lt: "p < ks ! i" using strict_nth_less_iff [OF s i1 i] h by simp
  have "\<forall>x\<in>set ks. \<not> (p < x \<and> x < ks ! i)"
  proof (intro ballI notI)
    fix x assume x: "x \<in> set ks" and b: "p < x \<and> x < ks ! i"
    from x obtain j where j: "j < length ks" and xj: "x = ks ! j" by (auto simp: in_set_conv_nth)
    from b have "i - 1 < j" using strict_nth_less_iff [OF s i1 j] h xj by simp
    moreover from b have "j < i" using strict_nth_less_iff [OF s j i] xj by simp
    ultimately show False by simp
  qed
  with mem lt show "prior_in ks p (ks ! i)" by (simp add: prior_in_def)
qed

lemma prior_in_cong: "set ks = set ks' \<Longrightarrow> prior_in ks p k = prior_in ks' p k"
  by (simp add: prior_in_def)

lemma index_of_nth: "x \<in> set xs \<Longrightarrow> index_of xs x < length xs \<and> xs ! index_of xs x = x"
  by (induction xs) (auto simp: index_of_def)

lemma set_unique: "set (unique xs) = set xs"
  by (simp add: unique_def)

lemma distinct_unique: "distinct (unique xs)"
  by (simp add: unique_def)

lemma pos_dates_set: "set (pos_dates pos) = date ` set pos"
  by (simp add: pos_dates_def set_unique)

lemma pos_dates_strict: "sorted_wrt (<) (pos_dates pos)"
  by (simp add: pos_dates_def strict_sorted_iff distinct_unique)

lemma index_of_zero: 
  assumes "sorted (xs::'a::linorder list)" "x \<in> set xs"
  shows "index_of xs x = 0 \<longleftrightarrow> (\<forall>y\<in>set xs. x \<le> y)"
  using assms by (cases xs) (auto simp: index_of_def)


text \<open>
  Claim C7. For an inspection date \<open>d\<close> of the log: when \<open>d\<close> is the earliest date of the
  whole log, \<^verbatim>\<open>prev_date\<close> and the change report give "no previous day", and the positions
  table of \<open>d\<close> is still built, from the rows of \<open>d\<close>; otherwise \<^verbatim>\<open>prev_date\<close> is the date
  immediately before \<open>d\<close> among all dates of the log, whatever their tickers.
\<close>

theorem prev_date_global:
  assumes "d \<in> date ` set pos"
  shows "if \<forall>r\<in>set pos. d \<le> date r
         then prev_date pos d = Inl NoPreviousDay \<and> daily_changes pos d = Inl NoPreviousDay \<and>
              today pos d \<noteq> [] \<and> pos_today pos d =
                Some (map (\<lambda>r. r\<lparr>delta := delta_signed r, vega := vega_signed r\<rparr>) (today pos d))
         else \<exists>p. prev_date pos d = Inr p \<and> prior_in (map date pos) p d"
proof -
  let ?ks = "pos_dates pos"
  let ?i = "index_of ?ks d"
  have mem: "d \<in> set ?ks" using assms by (simp add: pos_dates_set)
  have i: "?i < length ?ks" and di: "?ks ! ?i = d" using index_of_nth [OF mem] by simp_all
  have srt: "sorted ?ks" using pos_dates_strict [of pos] by (simp add: strict_sorted_iff)
  have z: "?i = 0 \<longleftrightarrow> (\<forall>r\<in>set pos. d \<le> date r)"
    using index_of_zero [OF srt mem] by (simp add: pos_dates_set)
  show ?thesis
  proof (cases "\<forall>r\<in>set pos. d \<le> date r")
    case True
    then have i0: "?i = 0" using z by simp
    have pd: "prev_date pos d = Inl NoPreviousDay" by (simp add: prev_date_def i0)
    have td: "today pos d \<noteq> []" using assms by (auto simp: today_def filter_empty_conv)
    show ?thesis using True pd td by (simp add: daily_changes_def pos_today_def)
  next
    case False
    then have "?i \<noteq> 0" using z by blast
    then have ip: "0 < ?i" by simp
    have pd: "prev_date pos d = Inr (?ks ! (?i - 1))" using ip mem by (simp add: prev_date_def)
    have "prior_in ?ks (?ks ! (?i - 1)) (?ks ! ?i)"
      using prior_in_sorted [OF pos_dates_strict i, of "?ks ! (?i - 1)"] ip by simp
    then have "prior_in ?ks (?ks ! (?i - 1)) d" by (simp only: di)
    then have "prior_in (map date pos) (?ks ! (?i - 1)) d"
      by (simp add: prior_in_def pos_dates_set)
    with pd False show ?thesis by auto
  qed
qed

theorem prev_date_global_witness:
  "1 \<in> date ` set log_new_ticker \<and> prev_date log_new_ticker 1 = Inl NoPreviousDay \<and>
   daily_changes log_new_ticker 1 = Inl NoPreviousDay \<and> pos_today log_new_ticker 1 \<noteq> None \<and>
   2 \<in> date ` set log_new_ticker \<and>
   (\<exists>p. prev_date log_new_ticker 2 = Inr p \<and> prior_in (map date log_new_ticker) p 2)"
proof -
  have h1: "1 \<in> date ` set log_new_ticker"
    by (simp add: log_new_ticker_def row_new_ticker_def)
  have h2: "2 \<in> date ` set log_new_ticker"
    by (simp add: log_new_ticker_def row_new_ticker_def)
  have a: "\<forall>r\<in>set log_new_ticker. 1 \<le> date r"
    by (simp add: log_new_ticker_def row_new_ticker_def)
  have b: "\<not> (\<forall>r\<in>set log_new_ticker. 2 \<le> date r)"
    by (simp add: log_new_ticker_def row_new_ticker_def)
  show ?thesis
    using prev_date_global [OF h1] prev_date_global [OF h2] h1 h2 a b by simp
qed

section \<open>Daily PnL engine: rows and their previous record\<close>

lemma filter_pair_key:
  "filter (\<lambda>x. (f x, g x) = k) xs = filter (\<lambda>x. f x = fst k \<and> g x = snd k) xs"
  by (cases k) simp

lemma groupby_sum_lookup:
  "fillna (map_of (groupby_sum key col df) k) 0 = sum_list (map col (filter (\<lambda>r. key r = k) df))"
proof -
  have "map_of (groupby_sum key col df) k =
          map_option (\<lambda>g. sum_list (map col g)) (map_of (groupby key df) k)"
    by (simp add: groupby_sum_def map_of_map)
  moreover have "k \<notin> key ` set df \<Longrightarrow> filter (\<lambda>r. key r = k) df = []"
    by (auto simp: filter_empty_conv)
  ultimately show ?thesis by (auto simp: map_of_groupby fillna_def)
qed

lemma groupby_sum_lookup_Some:
  "k \<in> key ` set df \<Longrightarrow>
   map_of (groupby_sum key col df) k = Some (sum_list (map col (filter (\<lambda>r. key r = k) df)))"
  by (simp add: groupby_sum_def map_of_map map_of_groupby)

lemma long_qty_lookup:
  "fillna (map_of (long_qty pos) (d, t)) 0 = long_qty_on pos d t"
proof -
  have "filter (\<lambda>x. date x = d \<and> ticker x = t) (filter (\<lambda>r. type r = ''long'') pos)
      = filter (\<lambda>x. type x = ''long'') (rows_on pos d t)"
    by (auto simp: rows_on_def intro: filter_cong)
  then show ?thesis
    by (simp add: long_qty_def groupby_sum_lookup filter_pair_key long_qty_on_def)
qed

lemma short_qty_lookup:
  "fillna (map_of (short_qty pos) (d, t)) 0 = short_qty_on pos d t"
proof -
  have "filter (\<lambda>x. date x = d \<and> ticker x = t) (filter (\<lambda>r. type r = ''short'') pos)
      = filter (\<lambda>x. type x = ''short'') (rows_on pos d t)"
    by (auto simp: rows_on_def intro: filter_cong)
  then show ?thesis
    by (simp add: short_qty_def groupby_sum_lookup filter_pair_key short_qty_on_def)
qed

lemma price_keys: "map fst (price pos) = sort (remdups (map (\<lambda>r. (date r, ticker r)) pos))"
  by (simp add: price_def groupby_first_def groupby_def comp_def)

lemma price_entry:
  assumes "(k, p) \<in> set (price pos)"
  shows "k \<in> (\<lambda>r. (date r, ticker r)) ` set pos \<and> p = price_on pos (fst k) (snd k)"
proof -
  from assms obtain g where g: "(k, g) \<in> set (groupby (\<lambda>r. (date r, ticker r)) pos)"
    and p: "p = price_today (hd g)"
    by (auto simp: price_def groupby_first_def)
  from groupby_group [OF g] show ?thesis
    by (simp add: p price_on_def rows_on_def filter_pair_key)
qed

lemma concat_keys:
  "map (\<lambda>r. (dp_date r, dp_ticker r)) (concat_positions pos) = map fst (price pos)"
  by (simp add: concat_positions_def comp_def case_prod_unfold)

lemma concat_row:
  assumes "r \<in> set (concat_positions pos)"
  shows "(dp_date r, dp_ticker r) \<in> (\<lambda>x. (date x, ticker x)) ` set pos \<and>
         dp_price_today r = price_on pos (dp_date r) (dp_ticker r) \<and>
         dp_long_qty r = long_qty_on pos (dp_date r) (dp_ticker r) \<and>
         dp_short_qty r = short_qty_on pos (dp_date r) (dp_ticker r)"
proof -
  from assms obtain k p where kp: "(k, p) \<in> set (price pos)"
    and r: "r = \<lparr>dp_date = fst k, dp_ticker = snd k, dp_price_today = p,
                       dp_long_qty = fillna (map_of (long_qty pos) k) 0,
                       dp_short_qty = fillna (map_of (short_qty pos) k) 0\<rparr>"
    by (auto simp: concat_positions_def)
  obtain d t where k: "k = (d, t)" by (cases k)
  from price_entry [OF kp] show ?thesis
    by (simp add: r k long_qty_lookup short_qty_lookup)
qed


lemma concat_keys_distinct: "distinct (map (\<lambda>r. (dp_date r, dp_ticker r)) (concat_positions pos))"
  by (simp only: concat_keys price_keys) simp

lemma concat_keys_set:
  "(\<lambda>r. (dp_date r, dp_ticker r)) ` set (concat_positions pos) = (\<lambda>x. (date x, ticker x)) ` set pos"
proof -
  have "set (map (\<lambda>r. (dp_date r, dp_ticker r)) (concat_positions pos)) = set (map fst (price pos))"
    by (simp only: concat_keys)
  then show ?thesis by (simp add: price_keys)
qed

lemma sorted_positions_set: "set (sorted_positions pos) = set (concat_positions pos)"
  by (simp add: sorted_positions_def sort_values_def)

lemma sorted_positions_strict: "sorted_wrt (<) (map tkey (sorted_positions pos))"
proof -
  let ?c = "concat_positions pos"
  have d: "distinct ?c" and inj: "inj_on (\<lambda>r. (dp_date r, dp_ticker r)) (set ?c)"
    using concat_keys_distinct [of pos] by (simp_all add: distinct_map)
  have inj2: "inj_on tkey (set ?c)"
    using inj unfolding inj_on_def by auto
  have "distinct (map tkey (sort_key tkey ?c))"
    using d inj2 by (simp add: distinct_map)
  moreover have "sorted (map tkey (sort_key tkey ?c))" by simp
  ultimately show ?thesis by (simp add: sorted_positions_def sort_values_def strict_sorted_iff)
qed

lemma shift_by_nth:
  "i < length df \<Longrightarrow>
   shift_by key col m df ! i =
     (if filter (\<lambda>q. key q = key (df ! i)) (take i df) = [] then m (key (df ! i))
      else Fin (col (last (filter (\<lambda>q. key q = key (df ! i)) (take i df)))))"
proof (induction df arbitrary: m i)
  case Nil
  then show ?case by simp
next
  case (Cons r rs)
  show ?case
  proof (cases i)
    case 0
    then show ?thesis by simp
  next
    case (Suc j)
    with Cons.prems have j: "j < length rs" by simp
    let ?m = "m(key r := Fin (col r))"
    let ?g = "filter (\<lambda>q. key q = key (rs ! j)) (take j rs)"
    have "shift_by key col m (r # rs) ! i = shift_by key col ?m rs ! j" by (simp add: Suc)
    also have "\<dots> = (if ?g = [] then ?m (key (rs ! j)) else Fin (col (last ?g)))"
      by (rule Cons.IH [OF j])
    also have "\<dots> = (if filter (\<lambda>q. key q = key ((r # rs) ! i)) (take i (r # rs)) = []
         then m (key ((r # rs) ! i))
         else Fin (col (last (filter (\<lambda>q. key q = key ((r # rs) ! i)) (take i (r # rs))))))"
      by (simp add: Suc)
    finally show ?thesis .
  qed
qed

lemma shift_by_length: "length (shift_by key col m df) = length df"
  by (induction df arbitrary: m) simp_all

lemma groupby_shift_length: "length (groupby_shift key col df) = length df"
  by (simp add: groupby_shift_def shift_by_length)

lemma between_same_key:
  assumes "((k :: 'a::linorder), (a :: 'b::linorder)) < (k', b)" and "(k', b) < (k, c)"
  shows "k' = k"
  using assms by (auto simp: less_prod_def)

lemma sorted_pairs_no_earlier:
  assumes s: "sorted_wrt (<) (map (\<lambda>r. ((key r :: 'k::linorder), (sub r :: 's::linorder))) df)"
    and i: "i < length df"
    and ne: "\<not> (0 < i \<and> key (df ! (i - 1)) = key (df ! i))"
  shows "filter (\<lambda>q. key q = key (df ! i)) (take i df) = []"
proof (rule ccontr)
  assume "filter (\<lambda>q. key q = key (df ! i)) (take i df) \<noteq> []"
  then obtain q where q: "q \<in> set (take i df)" and kq: "key q = key (df ! i)"
    by (auto simp: filter_empty_conv)
  from q obtain j where j: "j < i" and qj: "q = df ! j"
    using i by (auto simp: in_set_conv_nth)
  let ?P = "map (\<lambda>r. (key r, sub r)) df"
  have ip: "0 < i" using j by simp
  with ne have neq: "key (df ! (i - 1)) \<noteq> key (df ! i)" by simp
  have "j \<noteq> i - 1" using neq kq qj by auto
  with j have j1: "j < i - 1" by simp
  have i1: "i - 1 < length ?P" and iP: "i < length ?P" and jP: "j < length ?P" using i j by simp_all
  have a: "?P ! j < ?P ! (i - 1)" using sorted_wrt_nth_less [OF s j1 i1] .
  have b: "?P ! (i - 1) < ?P ! i" using sorted_wrt_nth_less [OF s _ iP, of "i - 1"] ip by simp
  have "key (df ! (i - 1)) = key (df ! i)"
    using a b i j kq qj between_same_key [of "key (df ! i)" "sub (df ! j)" "key (df ! (i - 1))" "sub (df ! (i - 1))" "sub (df ! i)"]
    by simp
  with neq show False by simp
qed

lemma groupby_shift_sorted:
  assumes s: "sorted_wrt (<) (map (\<lambda>r. ((key r :: 'k::linorder), (sub r :: 's::linorder))) df)"
    and i: "i < length df"
  shows "groupby_shift key col df ! i =
           (if 0 < i \<and> key (df ! (i - 1)) = key (df ! i) then Fin (col (df ! (i - 1))) else NaN)"
proof (cases "0 < i \<and> key (df ! (i - 1)) = key (df ! i)")
  case True
  then have "take i df = take (i - 1) df @ [df ! (i - 1)]"
    using i take_Suc_conv_app_nth [of "i - 1" df] by simp
  then have "filter (\<lambda>q. key q = key (df ! i)) (take i df) =
             filter (\<lambda>q. key q = key (df ! i)) (take (i - 1) df) @ [df ! (i - 1)]"
    using True by simp
  then show ?thesis using True i by (simp add: groupby_shift_def shift_by_nth)
next
  case False
  from sorted_pairs_no_earlier [OF s i False] show ?thesis
    using False i by (simp add: groupby_shift_def shift_by_nth)
qed


lemma daily_positions_length: "length (daily_positions pos) = length (sorted_positions pos)"
  by (simp add: daily_positions_def Let_def groupby_shift_length)

lemma daily_positions_nth:
  assumes "i < length (sorted_positions pos)"
  shows "daily_positions pos ! i =
     daily_position.extend (sorted_positions pos ! i)
       \<lparr>prev_long_qty = groupby_shift dp_ticker dp_long_qty (sorted_positions pos) ! i,
        prev_short_qty = groupby_shift dp_ticker dp_short_qty (sorted_positions pos) ! i,
        prev_price = groupby_shift dp_ticker dp_price_today (sorted_positions pos) ! i\<rparr>"
  using assms by (simp add: daily_positions_def Let_def groupby_shift_length)

lemma daily_positions_row:
  assumes i: "i < length (sorted_positions pos)"
  defines "sp \<equiv> sorted_positions pos" and "r \<equiv> daily_positions pos ! i"
  shows "dp_date r = dp_date (sp ! i)" "dp_ticker r = dp_ticker (sp ! i)"
    "dp_price_today r = dp_price_today (sp ! i)"
    "dp_long_qty r = dp_long_qty (sp ! i)" "dp_short_qty r = dp_short_qty (sp ! i)"
    "prev_long_qty r = (if follows sp i then Fin (dp_long_qty (sp ! (i - 1))) else NaN)"
    "prev_short_qty r = (if follows sp i then Fin (dp_short_qty (sp ! (i - 1))) else NaN)"
    "prev_price r = (if follows sp i then Fin (dp_price_today (sp ! (i - 1))) else NaN)"
proof -
  have s: "sorted_wrt (<) (map (\<lambda>r. (dp_ticker r, dp_date r)) sp)"
    unfolding sp_def by (rule sorted_positions_strict)
  have i': "i < length sp" using i by (simp add: sp_def)
  note sh = groupby_shift_sorted [OF s i']
  have r: "r = daily_position.extend (sp ! i)
       \<lparr>prev_long_qty = groupby_shift dp_ticker dp_long_qty sp ! i,
        prev_short_qty = groupby_shift dp_ticker dp_short_qty sp ! i,
        prev_price = groupby_shift dp_ticker dp_price_today sp ! i\<rparr>"
    unfolding r_def sp_def by (rule daily_positions_nth [OF i])
  show "dp_date r = dp_date (sp ! i)" "dp_ticker r = dp_ticker (sp ! i)"
    "dp_price_today r = dp_price_today (sp ! i)"
    "dp_long_qty r = dp_long_qty (sp ! i)" "dp_short_qty r = dp_short_qty (sp ! i)"
    by (simp_all add: r daily_position.defs)
  show "prev_long_qty r = (if follows sp i then Fin (dp_long_qty (sp ! (i - 1))) else NaN)"
    by (simp add: r daily_position.defs sh follows_def)
  show "prev_short_qty r = (if follows sp i then Fin (dp_short_qty (sp ! (i - 1))) else NaN)"
    by (simp add: r daily_position.defs sh follows_def)
  show "prev_price r = (if follows sp i then Fin (dp_price_today (sp ! (i - 1))) else NaN)"
    by (simp add: r daily_position.defs sh follows_def)
qed

lemma tkeys_set:
  "set (map tkey (sorted_positions pos)) = (\<lambda>x. (ticker x, date x)) ` set pos"
proof -
  have "set (map tkey (sorted_positions pos)) =
        (\<lambda>(d, t). (t, d)) ` ((\<lambda>r. (dp_date r, dp_ticker r)) ` set (concat_positions pos))"
    by (simp add: sorted_positions_set image_image)
  also have "\<dots> = (\<lambda>x. (ticker x, date x)) ` set pos"
    by (simp only: concat_keys_set) (simp add: image_image)
  finally show ?thesis .
qed

lemma prior_pairs:
  assumes "set P = (\<lambda>x. (ticker x, date x)) ` set pos"
  shows "prior_in P (t, p) (t, d) \<longleftrightarrow>
         prior_in (map date (filter (\<lambda>x. ticker x = t) pos)) p d"
  unfolding prior_in_def using assms
  by (auto simp: less_prod_def image_iff)


lemma row_index:
  assumes "r \<in> set (daily_positions pos)"
  obtains i where "i < length (sorted_positions pos)" and "r = daily_positions pos ! i"
  using assms by (auto simp: in_set_conv_nth daily_positions_length)

lemma follows_prior:
  assumes i: "i < length (sorted_positions pos)"
  defines "sp \<equiv> sorted_positions pos"
  shows "prior_in (map date (filter (\<lambda>x. ticker x = dp_ticker (sp ! i)) pos)) p (dp_date (sp ! i))
         \<longleftrightarrow> follows sp i \<and> dp_date (sp ! (i - 1)) = p"
proof -
  let ?P = "map tkey sp"
  have s: "sorted_wrt (<) ?P" unfolding sp_def by (rule sorted_positions_strict)
  have i': "i < length ?P" using i by (simp add: sp_def)
  have set: "set ?P = (\<lambda>x. (ticker x, date x)) ` set pos" unfolding sp_def by (rule tkeys_set)
  have Pi: "?P ! i = (dp_ticker (sp ! i), dp_date (sp ! i))" using i' by simp
  have "prior_in (map date (filter (\<lambda>x. ticker x = dp_ticker (sp ! i)) pos)) p (dp_date (sp ! i))
        \<longleftrightarrow> prior_in ?P (dp_ticker (sp ! i), p) (?P ! i)"
    by (simp only: Pi prior_pairs [OF set])
  also have "\<dots> \<longleftrightarrow> 0 < i \<and> (dp_ticker (sp ! i), p) = ?P ! (i - 1)"
    by (rule prior_in_sorted [OF s i'])
  also have "\<dots> \<longleftrightarrow> follows sp i \<and> dp_date (sp ! (i - 1)) = p"
    using i' by (auto simp: follows_def)
  finally show ?thesis .
qed

lemma sorted_row:
  assumes "i < length (sorted_positions pos)"
  defines "q \<equiv> sorted_positions pos ! i"
  shows "dp_price_today q = price_on pos (dp_date q) (dp_ticker q)"
    "dp_long_qty q = long_qty_on pos (dp_date q) (dp_ticker q)"
    "dp_short_qty q = short_qty_on pos (dp_date q) (dp_ticker q)"
proof -
  have "q \<in> set (concat_positions pos)"
    using assms(1) unfolding q_def by (simp only: sorted_positions_set [symmetric]) simp
  from concat_row [OF this] show "dp_price_today q = price_on pos (dp_date q) (dp_ticker q)"
    "dp_long_qty q = long_qty_on pos (dp_date q) (dp_ticker q)"
    "dp_short_qty q = short_qty_on pos (dp_date q) (dp_ticker q)" by simp_all
qed

lemma row_exists:
  assumes "x \<in> set pos"
  shows "\<exists>r\<in>set (daily_positions pos). dp_date r = date x \<and> dp_ticker r = ticker x"
proof -
  have "(ticker x, date x) \<in> set (map tkey (sorted_positions pos))"
    using assms by (simp only: tkeys_set) simp
  then obtain i where i: "i < length (sorted_positions pos)"
    and k: "tkey (sorted_positions pos ! i) = (ticker x, date x)"
    by (auto simp: in_set_conv_nth)
  have "daily_positions pos ! i \<in> set (daily_positions pos)"
    using i by (simp add: daily_positions_length)
  moreover have "dp_date (daily_positions pos ! i) = date x \<and> dp_ticker (daily_positions pos ! i) = ticker x"
    using k by (simp add: daily_positions_row [OF i])
  ultimately show ?thesis by blast
qed

text \<open>
  Claim C2. Let \<open>x\<close> be a record of the log and \<open>p\<close> the date immediately before \<open>date x\<close>
  among the dates on which the ticker of \<open>x\<close> is recorded (other tickers' dates do not
  count). Then \<^verbatim>\<open>daily_positions\<close> has a row for (date, ticker) of \<open>x\<close>, and in every such row
  \<^verbatim>\<open>prev_long_qty\<close>, \<^verbatim>\<open>prev_short_qty\<close> and \<^verbatim>\<open>prev_price\<close> are the long quantity, the short
  quantity and the price of that ticker on \<open>p\<close>, \<^verbatim>\<open>long_pnl\<close> is the previous long quantity
  times (today's price minus the previous price), and \<^verbatim>\<open>short_pnl\<close> is minus the previous
  short quantity times the same price change.
\<close>

theorem per_ticker_shift:
  assumes x: "x \<in> set pos"
    and pr: "prior_in (map date (filter (\<lambda>y. ticker y = ticker x) pos)) p (date x)"
  shows "(\<exists>r\<in>set (daily_positions pos). dp_date r = date x \<and> dp_ticker r = ticker x) \<and>
         (\<forall>r\<in>set (daily_positions pos). dp_date r = date x \<and> dp_ticker r = ticker x \<longrightarrow>
            prev_long_qty r = Fin (long_qty_on pos p (ticker x)) \<and>
            prev_short_qty r = Fin (short_qty_on pos p (ticker x)) \<and>
            prev_price r = Fin (price_on pos p (ticker x)) \<and>
            dp_price_today r = price_on pos (date x) (ticker x) \<and>
            long_pnl r = Fin (long_qty_on pos p (ticker x) *
                               (price_on pos (date x) (ticker x) - price_on pos p (ticker x))) \<and>
            short_pnl r = Fin (- short_qty_on pos p (ticker x) *
                               (price_on pos (date x) (ticker x) - price_on pos p (ticker x))))"
proof (intro conjI ballI impI)
  show "\<exists>r\<in>set (daily_positions pos). dp_date r = date x \<and> dp_ticker r = ticker x"
    using x by (rule row_exists)
next
  fix r assume r: "r \<in> set (daily_positions pos)"
    and k: "dp_date r = date x \<and> dp_ticker r = ticker x"
  let ?sp = "sorted_positions pos"
  from r obtain i where i: "i < length ?sp" and ri: "r = daily_positions pos ! i"
    by (rule row_index)
  note row = daily_positions_row [OF i, folded ri]
  have kd: "dp_date (?sp ! i) = date x" and kt: "dp_ticker (?sp ! i) = ticker x"
    using k row(1,2) by simp_all
  have f: "follows ?sp i" and pd: "dp_date (?sp ! (i - 1)) = p"
    using follows_prior [OF i, of p] pr by (simp_all add: kd kt)
  have i1: "i - 1 < length ?sp" using i by simp
  have pt: "dp_ticker (?sp ! (i - 1)) = ticker x" using f kt by (simp add: follows_def)
  note q = sorted_row [OF i1, unfolded pd pt]
  note c = sorted_row [OF i, unfolded kd kt]
  show l: "prev_long_qty r = Fin (long_qty_on pos p (ticker x))" using row(6) f q by simp
  show s: "prev_short_qty r = Fin (short_qty_on pos p (ticker x))" using row(7) f q by simp
  show pp: "prev_price r = Fin (price_on pos p (ticker x))" using row(8) f q by simp
  show pt: "dp_price_today r = price_on pos (date x) (ticker x)" using row(3) c by simp
  show "long_pnl r = Fin (long_qty_on pos p (ticker x) *
                               (price_on pos (date x) (ticker x) - price_on pos p (ticker x)))"
    by (simp add: long_pnl_def mask_first_def isna_def dP_def fsub_def l pp pt)
  show "short_pnl r = Fin (- short_qty_on pos p (ticker x) *
                               (price_on pos (date x) (ticker x) - price_on pos p (ticker x)))"
    by (simp add: short_pnl_def mask_first_def isna_def dP_def fsub_def s pp pt)
qed


text \<open>
  Claim C4. Let \<open>x\<close> be a record of the log on the first date on which its ticker appears.
  Then \<^verbatim>\<open>daily_positions\<close> has a row for (date, ticker) of \<open>x\<close>, and in every such row the
  previous price is undefined (NaN) and \<^verbatim>\<open>long_pnl\<close>, \<^verbatim>\<open>short_pnl\<close> and \<^verbatim>\<open>total_pnl\<close> are
  exactly 0.
\<close>

theorem first_record_zero_pnl:
  assumes x: "x \<in> set pos"
    and first: "\<forall>y\<in>set pos. ticker y = ticker x \<longrightarrow> date x \<le> date y"
  shows "(\<exists>r\<in>set (daily_positions pos). dp_date r = date x \<and> dp_ticker r = ticker x) \<and>
         (\<forall>r\<in>set (daily_positions pos). dp_date r = date x \<and> dp_ticker r = ticker x \<longrightarrow>
            prev_price r = NaN \<and> long_pnl r = Fin 0 \<and> short_pnl r = Fin 0 \<and> total_pnl r = Fin 0)"
proof (intro conjI ballI impI)
  show "\<exists>r\<in>set (daily_positions pos). dp_date r = date x \<and> dp_ticker r = ticker x"
    using x by (rule row_exists)
next
  fix r assume r: "r \<in> set (daily_positions pos)"
    and k: "dp_date r = date x \<and> dp_ticker r = ticker x"
  let ?sp = "sorted_positions pos"
  from r obtain i where i: "i < length ?sp" and ri: "r = daily_positions pos ! i"
    by (rule row_index)
  note row = daily_positions_row [OF i, folded ri]
  have kd: "dp_date (?sp ! i) = date x" and kt: "dp_ticker (?sp ! i) = ticker x"
    using k row(1,2) by simp_all
  have nf: "\<not> follows ?sp i"
  proof
    assume "follows ?sp i"
    then have "prior_in (map date (filter (\<lambda>y. ticker y = ticker x) pos))
                 (dp_date (?sp ! (i - 1))) (date x)"
      using follows_prior [OF i, of "dp_date (?sp ! (i - 1))"] by (simp add: kd kt)
    then obtain y where "y \<in> set pos" "ticker y = ticker x" "date y < date x"
      by (auto simp: prior_in_def)
    with first show False by auto
  qed
  show pp: "prev_price r = NaN" using row(8) nf by simp
  show l: "long_pnl r = Fin 0" by (simp add: long_pnl_def mask_first_def isna_def pp)
  show s: "short_pnl r = Fin 0" by (simp add: short_pnl_def mask_first_def isna_def pp)
  show "total_pnl r = Fin 0" by (simp add: total_pnl_def l s)
qed

theorem first_record_zero_pnl_witness:
  "row_gap_first \<in> set log_gap \<and>
   (\<exists>r. r \<in> set (daily_positions log_gap) \<and> dp_date r = 1 \<and> dp_ticker r = ''AAA'' \<and>
        prev_price r = NaN \<and> long_pnl r = Fin 0 \<and> short_pnl r = Fin 0)"
proof -
  have h1: "row_gap_first \<in> set log_gap" by (simp add: log_gap_def)
  have h2: "\<forall>y\<in>set log_gap. ticker y = ticker row_gap_first \<longrightarrow> date row_gap_first \<le> date y"
    by (simp add: log_gap_def row_gap_first_def row_gap_last_def)
  have k: "date row_gap_first = 1" "ticker row_gap_first = ''AAA''"
    by (simp_all add: row_gap_first_def)
  show ?thesis using first_record_zero_pnl [OF h1 h2] h1 unfolding k by blast
qed

theorem per_ticker_shift_witness:
  "row_gap_last \<in> set log_gap \<and>
   prior_in (map date (filter (\<lambda>y. ticker y = ticker row_gap_last) log_gap)) 1 (date row_gap_last) \<and>
   (\<exists>r. r \<in> set (daily_positions log_gap) \<and> dp_date r = 3 \<and> dp_ticker r = ''AAA'' \<and>
        prev_long_qty r = Fin 10 \<and> prev_short_qty r = Fin 0 \<and> prev_price r = Fin 100 \<and>
        long_pnl r = Fin 50 \<and> short_pnl r = Fin 0)"
proof -
  have h1: "row_gap_last \<in> set log_gap" by (simp add: log_gap_def)
  have h2: "prior_in (map date (filter (\<lambda>y. ticker y = ticker row_gap_last) log_gap)) 1
              (date row_gap_last)"
    by (simp add: prior_in_def log_gap_def row_gap_first_def row_gap_last_def)
  have k: "date row_gap_last = 3" "ticker row_gap_last = ''AAA''"
    by (simp_all add: row_gap_last_def)
  have v: "long_qty_on log_gap 1 ''AAA'' = 10" "short_qty_on log_gap 1 ''AAA'' = 0"
    "price_on log_gap 1 ''AAA'' = 100" "price_on log_gap 3 ''AAA'' = 105"
    by (simp_all add: long_qty_on_def short_qty_on_def price_on_def rows_on_def log_gap_def
        row_gap_first_def row_gap_last_def)
  show ?thesis using per_ticker_shift [OF h1 h2] h1 h2 unfolding k v by auto
qed

section \<open>Capital base and equity curve\<close>

lemma isfin_iff: "isfin x \<longleftrightarrow> (\<exists>v. x = Fin v)"
  by (cases x) simp_all

lemma pnl_fin:
  assumes "r \<in> set (daily_positions pos)"
  shows "isfin (long_pnl r) \<and> isfin (short_pnl r) \<and> isfin (total_pnl r)"
proof -
  from assms obtain i where i: "i < length (sorted_positions pos)"
    and ri: "r = daily_positions pos ! i"
    by (rule row_index)
  note row = daily_positions_row [OF i, folded ri]
  show ?thesis
    by (cases "follows (sorted_positions pos) i")
      (simp_all add: total_pnl_def long_pnl_def short_pnl_def mask_first_def isna_def dP_def
        fsub_def row)
qed

lemma nansum_Fin: "nansum (map Fin vs) = Fin (sum_list vs)"
  by (induction vs) (simp_all add: isna_def)

lemma all_fin_map: "(\<forall>v\<in>set vs. isfin v) \<Longrightarrow> \<exists>ps. vs = map Fin ps"
proof (induction vs)
  case Nil
  then show ?case by simp
next
  case (Cons v vs)
  then obtain ps where "vs = map Fin ps" by auto
  moreover from Cons.prems obtain p where "v = Fin p" by (auto simp: isfin_iff)
  ultimately have "v # vs = map Fin (p # ps)" by simp
  then show ?case by (rule exI [of _ "p # ps"])
qed

lemma nansum_isfin: "(\<forall>v\<in>set vs. isfin v) \<Longrightarrow> isfin (nansum vs)"
  using all_fin_map [of vs] nansum_Fin by auto

lemma cumsum_from_length: "length (cumsum_from a xs) = length xs"
  by (induction xs arbitrary: a) simp_all

lemma cumsum_from_Fin_nth:
  "t < length ps \<Longrightarrow>
   cumsum_from (Fin a) (map Fin ps) ! t = Fin (a + sum_list (take (Suc t) ps))"
proof (induction ps arbitrary: a t)
  case Nil
  then show ?case by simp
next
  case (Cons p ps)
  show ?case
  proof (cases t)
    case 0
    then show ?thesis by (simp add: isna_def)
  next
    case (Suc u)
    with Cons.prems have "u < length ps" by simp
    from Cons.IH [OF this, of "a + p"] show ?thesis by (simp add: Suc isna_def add.assoc)
  qed
qed

lemma total_pnl_fin: "\<exists>ps. map snd (daily_total_pnl_all pos) = map Fin ps"
proof (rule all_fin_map, rule ballI)
  fix v assume "v \<in> set (map snd (daily_total_pnl_all pos))"
  then obtain d g where dg: "(d, g) \<in> set (groupby dp_date (daily_positions pos))"
    and v: "v = nansum (map total_pnl g)"
    by (auto simp: daily_total_pnl_all_def groupby_nansum_def)
  from groupby_group [OF dg] have "set g \<subseteq> set (daily_positions pos)" by auto
  then have "\<forall>x\<in>set (map total_pnl g). isfin x" using pnl_fin by auto
  then show "isfin v" unfolding v by (rule nansum_isfin)
qed

lemma sort_remdups_set:
  "set xs = set ys \<Longrightarrow> sort (remdups xs) = sort (remdups (ys :: 'a::linorder list))"
  by (metis sorted_list_of_set_sort_remdups)

lemma daily_dates: "map dp_date (daily_positions pos) = map dp_date (sorted_positions pos)"
  by (rule nth_equalityI) (simp_all add: daily_positions_length daily_positions_row)

lemma daily_dates_set: "dp_date ` set (daily_positions pos) = date ` set pos"
proof -
  have "dp_date ` set (daily_positions pos) = set (map dp_date (daily_positions pos))" by simp
  also have "\<dots> = snd ` set (map tkey (sorted_positions pos))"
    by (simp only: daily_dates) (simp add: image_image)
  also have "\<dots> = date ` set pos" by (simp only: tkeys_set) (simp add: image_image)
  finally show ?thesis .
qed

lemma total_pnl_index:
  "map fst (daily_total_pnl_all pos) = sort (remdups (map date pos))"
proof -
  have "map fst (daily_total_pnl_all pos) = map fst (groupby dp_date (daily_positions pos))"
    by (simp add: daily_total_pnl_all_def groupby_nansum_def comp_def case_prod_unfold)
  also have "\<dots> = sort (remdups (map dp_date (daily_positions pos)))" by (rule groupby_keys)
  also have "\<dots> = sort (remdups (map date pos))"
    by (rule sort_remdups_set) (simp add: daily_dates_set)
  finally show ?thesis .
qed

lemma first_date_earliest:
  assumes "pos \<noteq> []"
  shows "\<exists>d0. first_date_all pos = Inr d0 \<and> d0 \<in> date ` set pos \<and> (\<forall>x\<in>set pos. d0 \<le> date x)"
proof -
  let ?T = "daily_total_pnl_all pos"
  have "set (map fst ?T) = date ` set pos" by (simp only: total_pnl_index) simp
  then have "set (map fst ?T) \<noteq> {}" using assms by simp
  then have ne: "map fst ?T \<noteq> []" by auto
  then obtain d v s where T: "?T = (d, v) # s" by (cases ?T) auto
  have srt: "sorted (map fst ?T)" by (simp only: total_pnl_index) simp
  have st: "set (map fst ?T) = date ` set pos" by (simp only: total_pnl_index) simp
  have "d \<in> set (map fst ?T)" by (simp add: T)
  then have "d \<in> date ` set pos" by (simp only: st)
  moreover have "\<forall>x\<in>set pos. d \<le> date x"
  proof
    fix x assume "x \<in> set pos"
    then have "date x \<in> set (map fst ?T)" by (simp only: st) simp
    then show "d \<le> date x" using srt by (auto simp: T)
  qed
  moreover have "first_date_all pos = Inr d" by (simp add: first_date_all_def T)
  ultimately show ?thesis by blast
qed


lemma truncate_fields:
  "dp_date (daily_position.truncate r) = dp_date r"
  "dp_ticker (daily_position.truncate r) = dp_ticker r"
  "dp_price_today (daily_position.truncate r) = dp_price_today r"
  "dp_long_qty (daily_position.truncate r) = dp_long_qty r"
  "dp_short_qty (daily_position.truncate r) = dp_short_qty r"
  by (simp_all add: daily_position.defs)

lemma daily_truncate:
  "map daily_position.truncate (daily_positions pos) = sorted_positions pos"
proof (rule nth_equalityI)
  show "length (map daily_position.truncate (daily_positions pos)) = length (sorted_positions pos)"
    by (simp add: daily_positions_length)
next
  fix i assume "i < length (map daily_position.truncate (daily_positions pos))"
  then have i: "i < length (sorted_positions pos)" by (simp add: daily_positions_length)
  then show "map daily_position.truncate (daily_positions pos) ! i = sorted_positions pos ! i"
    by (simp add: daily_positions_length daily_positions_nth daily_position.defs)
qed

lemma sum_over_day:
  "sum_list (map (\<lambda>r. f (daily_position.truncate r)) (filter (\<lambda>r. dp_date r = d) (daily_positions pos)))
   = sum_list (map f (filter (\<lambda>q. dp_date q = d) (sorted_positions pos)))"
proof -
  have "filter (\<lambda>q. dp_date q = d) (map daily_position.truncate (daily_positions pos))
      = map daily_position.truncate (filter (\<lambda>r. dp_date r = d) (daily_positions pos))"
    by (simp add: filter_map comp_def truncate_fields)
  then have "filter (\<lambda>q. dp_date q = d) (sorted_positions pos)
      = map daily_position.truncate (filter (\<lambda>r. dp_date r = d) (daily_positions pos))"
    by (simp only: daily_truncate)
  then show ?thesis by (simp add: comp_def)
qed

lemma day_tickers_distinct:
  "distinct (map dp_ticker (filter (\<lambda>q. dp_date q = d) (sorted_positions pos)))"
proof -
  let ?rows = "filter (\<lambda>q. dp_date q = d) (sorted_positions pos)"
  have "distinct (map tkey (sorted_positions pos))"
    using sorted_positions_strict [of pos] by (simp add: strict_sorted_iff)
  then have "distinct (map tkey ?rows)" by (rule distinct_map_filter)
  moreover have "map tkey ?rows = map (\<lambda>t. (t, d)) (map dp_ticker ?rows)"
    by (induction "sorted_positions pos") auto
  ultimately have "distinct (map (\<lambda>t. (t, d)) (map dp_ticker ?rows))" by simp
  then show ?thesis
    using distinct_map [of "\<lambda>t. (t, d)" "map dp_ticker ?rows"] by blast
qed

lemma day_tickers_set:
  "set (map dp_ticker (filter (\<lambda>q. dp_date q = d) (sorted_positions pos))) = set (tickers_on pos d)"
proof -
  have "set (map dp_ticker (filter (\<lambda>q. dp_date q = d) (sorted_positions pos)))
      = {t. (t, d) \<in> set (map tkey (sorted_positions pos))}"
    by (auto simp: image_iff)
  also have "\<dots> = set (tickers_on pos d)"
    by (simp only: tkeys_set) (auto simp: tickers_on_def image_iff)
  finally show ?thesis .
qed

lemma day_sum:
  assumes "\<And>q. q \<in> set (sorted_positions pos) \<Longrightarrow> dp_date q = d \<Longrightarrow>
              f q = (g (dp_ticker q) :: real)"
  shows "sum_list (map f (filter (\<lambda>q. dp_date q = d) (sorted_positions pos)))
       = sum_list (map g (tickers_on pos d))"
proof -
  let ?rows = "filter (\<lambda>q. dp_date q = d) (sorted_positions pos)"
  have eq: "\<And>q. q \<in> set ?rows \<Longrightarrow> f q = g (dp_ticker q)" using assms by simp
  have m: "map f ?rows = map (\<lambda>q. g (dp_ticker q)) ?rows"
    by (rule map_cong [OF refl]) (rule eq)
  have "sum_list (map f ?rows) = sum_list (map (\<lambda>q. g (dp_ticker q)) ?rows)"
    by (simp only: m)
  also have "\<dots> = sum_list (map g (map dp_ticker ?rows))" by (simp add: comp_def)
  also have "\<dots> = sum g (set (map dp_ticker ?rows))"
    by (rule sum_list_distinct_conv_sum_set [OF day_tickers_distinct])
  also have "\<dots> = sum g (set (tickers_on pos d))" by (simp only: day_tickers_set)
  also have "\<dots> = sum_list (map g (tickers_on pos d))"
    by (rule sum_list_distinct_conv_sum_set [symmetric]) (simp add: tickers_on_def)
  finally show ?thesis .
qed

lemma sorted_row_mem:
  assumes "q \<in> set (sorted_positions pos)"
  shows "dp_price_today q = price_on pos (dp_date q) (dp_ticker q)"
    "dp_long_qty q = long_qty_on pos (dp_date q) (dp_ticker q)"
    "dp_short_qty q = short_qty_on pos (dp_date q) (dp_ticker q)"
  using concat_row [of q pos] assms by (simp_all add: sorted_positions_set)

lemma long_initial_cap:
  "long_initial_cap_all pos d =
     sum_list (map (\<lambda>t. long_qty_on pos d t * price_on pos d t) (tickers_on pos d))"
proof -
  have "long_initial_cap_all pos d =
        sum_list (map (\<lambda>r. (\<lambda>q. dp_long_qty q * dp_price_today q) (daily_position.truncate r))
                   (filter (\<lambda>r. dp_date r = d) (daily_positions pos)))"
    by (simp add: long_initial_cap_all_def first_day_all_def truncate_fields)
  also have "\<dots> = sum_list (map (\<lambda>q. dp_long_qty q * dp_price_today q)
                          (filter (\<lambda>q. dp_date q = d) (sorted_positions pos)))"
    by (rule sum_over_day)
  also have "\<dots> = sum_list (map (\<lambda>t. long_qty_on pos d t * price_on pos d t) (tickers_on pos d))"
    by (rule day_sum) (auto simp: sorted_row_mem)
  finally show ?thesis .
qed

lemma short_initial_cap:
  "short_initial_cap_all pos d =
     sum_list (map (\<lambda>t. short_qty_on pos d t * price_on pos d t) (tickers_on pos d))"
proof -
  have "short_initial_cap_all pos d =
        sum_list (map (\<lambda>r. (\<lambda>q. dp_short_qty q * dp_price_today q) (daily_position.truncate r))
                   (filter (\<lambda>r. dp_date r = d) (daily_positions pos)))"
    by (simp add: short_initial_cap_all_def first_day_all_def truncate_fields)
  also have "\<dots> = sum_list (map (\<lambda>q. dp_short_qty q * dp_price_today q)
                          (filter (\<lambda>q. dp_date q = d) (sorted_positions pos)))"
    by (rule sum_over_day)
  also have "\<dots> = sum_list (map (\<lambda>t. short_qty_on pos d t * price_on pos d t) (tickers_on pos d))"
    by (rule day_sum) (auto simp: sorted_row_mem)
  finally show ?thesis .
qed



lemma equity_values:
  assumes ps: "map snd (daily_total_pnl_all pos) = map Fin ps"
  shows "map (fadd (Fin c)) (cumsum (map snd (daily_total_pnl_all pos)))
       = map Fin (map (\<lambda>t. c + sum_list (take (Suc t) ps)) [0..<length ps])"
proof (rule nth_equalityI)
  show "length (map (fadd (Fin c)) (cumsum (map snd (daily_total_pnl_all pos))))
      = length (map Fin (map (\<lambda>t. c + sum_list (take (Suc t) ps)) [0..<length ps]))"
    by (simp add: ps cumsum_def cumsum_from_length)
next
  fix t assume "t < length (map (fadd (Fin c)) (cumsum (map snd (daily_total_pnl_all pos))))"
  then have t: "t < length ps" by (simp add: ps cumsum_def cumsum_from_length)
  then show "map (fadd (Fin c)) (cumsum (map snd (daily_total_pnl_all pos))) ! t
      = map Fin (map (\<lambda>t. c + sum_list (take (Suc t) ps)) [0..<length ps]) ! t"
    by (simp add: ps cumsum_def cumsum_from_length cumsum_from_Fin_nth)
qed

text \<open>
  Claim C3. For a log that is not empty: the first date of the portfolio series is the
  earliest date of the log; the capital base is the sum, over the tickers recorded on that
  date, of long quantity times price plus the sum of short quantity times price; the daily
  total PnL and the equity curve are finite numbers \<open>ps\<close> and \<open>es\<close>, one per date of the
  log, with \<open>es ! t\<close> the capital base plus the sum of \<open>ps\<close> up to \<open>t\<close>, hence
  \<open>es ! t = es ! (t - 1) + ps ! t\<close> after the first date; and for every window the equity
  of the window is the part of this curve whose dates lie in the window, the values
  unchanged.
\<close>

theorem equity_curve:
  assumes "pos \<noteq> []"
  shows "\<exists>d0 c ps es.
     first_date_all pos = Inr d0 \<and> d0 \<in> date ` set pos \<and> (\<forall>x\<in>set pos. d0 \<le> date x) \<and>
     capital_base_all pos = Inr c \<and>
     c = sum_list (map (\<lambda>t. long_qty_on pos d0 t * price_on pos d0 t) (tickers_on pos d0)) +
         sum_list (map (\<lambda>t. short_qty_on pos d0 t * price_on pos d0 t) (tickers_on pos d0)) \<and>
     daily_total_pnl_all pos = zip (sort (remdups (map date pos))) (map Fin ps) \<and>
     equity_all pos = Inr (zip (sort (remdups (map date pos))) (map Fin es)) \<and>
     length es = length ps \<and> length ps = length (sort (remdups (map date pos))) \<and>
     (\<forall>t<length es. es ! t = c + sum_list (take (Suc t) ps)) \<and>
     (\<forall>t<length es. 0 < t \<longrightarrow> es ! t = es ! (t - 1) + ps ! t) \<and>
     (\<forall>date_range. equity_window pos date_range =
        Inr (filter (\<lambda>(d, v). fst date_range \<le> d \<and> d \<le> snd date_range)
               (zip (sort (remdups (map date pos))) (map Fin es))))"
proof -
  let ?T = "daily_total_pnl_all pos"
  let ?idx = "sort (remdups (map date pos))"
  from first_date_earliest [OF assms] obtain d0 where d0: "first_date_all pos = Inr d0"
    and mem: "d0 \<in> date ` set pos" and least: "\<forall>x\<in>set pos. d0 \<le> date x" by blast
  define c where "c = long_initial_cap_all pos d0 + short_initial_cap_all pos d0"
  have cb: "capital_base_all pos = Inr c" by (simp add: capital_base_all_def d0 c_def)
  have cv: "c = sum_list (map (\<lambda>t. long_qty_on pos d0 t * price_on pos d0 t) (tickers_on pos d0)) +
         sum_list (map (\<lambda>t. short_qty_on pos d0 t * price_on pos d0 t) (tickers_on pos d0))"
    by (simp only: c_def long_initial_cap short_initial_cap)
  from total_pnl_fin obtain ps where ps: "map snd ?T = map Fin ps" by blast
  have idx: "map fst ?T = ?idx" by (rule total_pnl_index)
  have T: "?T = zip ?idx (map Fin ps)"
    using zip_map_fst_snd [of ?T] by (simp only: idx ps)
  have len: "length ps = length ?idx"
  proof -
    have "length ps = length (map snd ?T)" by (simp only: ps) simp
    also have "\<dots> = length (map fst ?T)" by simp
    finally show ?thesis by (simp only: idx)
  qed
  define es where "es = map (\<lambda>t. c + sum_list (take (Suc t) ps)) [0..<length ps]"
  have les: "length es = length ps" by (simp add: es_def)
  have eq: "equity_all pos = Inr (zip ?idx (map Fin es))"
    by (simp only: equity_all_def cb sum.case idx equity_values [OF ps] es_def)
  have nth: "\<forall>t<length es. es ! t = c + sum_list (take (Suc t) ps)"
    by (simp add: es_def)
  have step: "\<forall>t<length es. 0 < t \<longrightarrow> es ! t = es ! (t - 1) + ps ! t"
  proof (intro allI impI)
    fix t assume t: "t < length es" and p: "0 < t"
    then have tp: "t < length ps" by (simp add: les)
    have "take (Suc t) ps = take t ps @ [ps ! t]" using tp by (rule take_Suc_conv_app_nth)
    then have "es ! t = c + sum_list (take t ps) + ps ! t" using t nth by simp
    moreover have "es ! (t - 1) = c + sum_list (take t ps)" using t p nth by simp
    ultimately show "es ! t = es ! (t - 1) + ps ! t" by simp
  qed
  have win: "\<forall>date_range. equity_window pos date_range =
        Inr (filter (\<lambda>(d, v). fst date_range \<le> d \<and> d \<le> snd date_range)
               (zip ?idx (map Fin es)))"
    by (simp add: equity_window_def eq mask_window_def)
  show ?thesis
    using d0 mem least cb cv T eq les len nth step win by blast
qed

theorem equity_curve_witness:
  "log_gap \<noteq> [] \<and> first_date_all log_gap = Inr 1 \<and> capital_base_all log_gap = Inr 1000 \<and>
   daily_total_pnl_all log_gap = [(1, Fin 0), (2, Fin 0), (3, Fin 50)] \<and>
   equity_all log_gap = Inr [(1, Fin 1000), (2, Fin 1000), (3, Fin 1050)] \<and>
   equity_window log_gap (2, 3) = Inr [(2, Fin 1000), (3, Fin 1050)]"
proof -
  have h: "log_gap \<noteq> []" by (simp add: log_gap_def)
  from equity_curve [OF h] obtain d0 c where d0: "first_date_all log_gap = Inr d0"
    and mem: "d0 \<in> date ` set log_gap" and least: "\<forall>x\<in>set log_gap. d0 \<le> date x"
    and cb: "capital_base_all log_gap = Inr c"
    and cv: "c = sum_list (map (\<lambda>t. long_qty_on log_gap d0 t * price_on log_gap d0 t)
                    (tickers_on log_gap d0)) +
         sum_list (map (\<lambda>t. short_qty_on log_gap d0 t * price_on log_gap d0 t)
                    (tickers_on log_gap d0))"
    by blast
  have "d0 \<le> 1" using least by (simp add: log_gap_def row_gap_first_def)
  moreover have "d0 \<noteq> 0" using mem by (auto simp: log_gap_def row_gap_first_def row_gap_last_def)
  ultimately have d01: "d0 = 1" by simp
  have c: "c = 1000"
    unfolding cv d01
    by (simp add: tickers_on_def long_qty_on_def short_qty_on_def price_on_def rows_on_def
        log_gap_def row_gap_first_def row_gap_last_def)
  have t: "daily_total_pnl_all log_gap = [(1, Fin 0), (2, Fin 0), (3, Fin 50)]" by code_simp
  have e: "equity_all log_gap = Inr [(1, Fin 1000), (2, Fin 1000), (3, Fin 1050)]" by code_simp
  have w: "equity_window log_gap (2, 3) = Inr [(2, Fin 1000), (3, Fin 1050)]" by code_simp
  show ?thesis using h d0 cb t e w by (simp add: d01 c)
qed

section \<open>Vega-hedge flag\<close>

lemma groupby_sum_keys: "map fst (groupby_sum key col df) = sort (remdups (map key df))"
  by (simp add: groupby_sum_def groupby_def comp_def)

lemma groupby_sum_nth:
  assumes "i < length (groupby_sum key col df)"
  shows "snd (groupby_sum key col df ! i) =
         sum_list (map col (filter (\<lambda>r. key r = fst (groupby_sum key col df ! i)) df))"
  using assms by (simp add: groupby_sum_def groupby_def)

lemma shift_length: "length (shift s) = length s"
  by (cases s) (simp_all add: shift_def)

lemma shift_nth:
  assumes "i < length s"
  shows "shift s ! i = (fst (s ! i), if i = 0 then NaN else Fin (snd (s ! (i - 1))))"
proof (cases i)
  case 0
  with assms show ?thesis by (cases s) (simp_all add: shift_def)
next
  case (Suc j)
  with assms have j: "j < length (butlast s)" by simp
  have "shift s ! i = (map fst s ! i, (NaN # map (\<lambda>(k, v). Fin v) (butlast s)) ! i)"
    unfolding shift_def using assms by (intro nth_zip) simp_all
  also have "\<dots> = (fst (s ! i), Fin (snd (butlast s ! j)))"
    using assms j by (simp add: Suc case_prod_unfold)
  also have "butlast s ! j = s ! j" using j by (rule nth_butlast)
  finally show ?thesis by (simp add: Suc)
qed

lemma diff_length: "length (diff s) = length s"
  by (simp add: diff_def shift_length)

lemma diff_nth:
  assumes "i < length s"
  shows "diff s ! i = (fst (s ! i), if i = 0 then NaN else Fin (snd (s ! i) - snd (s ! (i - 1))))"
  using assms
  by (simp add: diff_def shift_length shift_nth case_prod_unfold fsub_def)

lemma diff_keys: "map fst (diff s) = map fst s"
  by (rule nth_equalityI) (simp_all add: diff_length diff_nth)

lemma map_of_nth:
  assumes "distinct (map fst xs)" "i < length xs"
  shows "map_of xs (fst (xs ! i)) = Some (snd (xs ! i))"
  using assms by (simp add: map_of_eq_Some_iff)


lemma net_greeks_index: "map fst (net_greeks pos) = sort (remdups (map date pos))"
  by (simp add: net_greeks_def groupby_def comp_def)

lemma net_greeks_df_row:
  assumes "row \<in> set (net_greeks_df pos)"
  shows "ng_date row \<in> date ` set pos \<and>
         delta_hedge row = lookup_flag (delta_hedge_flags pos) (ng_date row) \<and>
         vega_hedge row = lookup_flag (vega_hedge_flags pos) (ng_date row)"
proof -
  let ?ng = "net_greeks pos"
  let ?idx = "map fst ?ng"
  let ?dh = "reindex (delta_hedge_flags pos) ?idx"
  let ?vh = "reindex (vega_hedge_flags pos) ?idx"
  let ?z = "zip ?ng (zip ?dh ?vh)"
  have len: "length ?dh = length ?ng" "length ?vh = length ?ng" by (simp_all add: reindex_def)
  from assms obtain e where e: "e \<in> set ?z"
    and row: "row = (\<lambda>((d, nd, nv), (d1, dh), (d2, vh)).
                \<lparr>ng_date = d, net_delta = nd, net_vega = nv, delta_hedge = dh, vega_hedge = vh\<rparr>) e"
    by (auto simp: net_greeks_df_def Let_def)
  from e obtain i where i: "i < length ?ng" and ei: "e = ?z ! i"
    using len by (auto simp: in_set_conv_nth)
  have ez: "e = (?ng ! i, ?dh ! i, ?vh ! i)" using i len by (simp add: ei)
  obtain d nd nv where g: "?ng ! i = (d, nd, nv)" by (cases "?ng ! i")
  have di: "?idx ! i = d" using i g by simp
  have dh: "?dh ! i = (d, lookup_flag (delta_hedge_flags pos) d)"
    using i di by (simp add: reindex_def lookup_flag_def)
  have vh: "?vh ! i = (d, lookup_flag (vega_hedge_flags pos) d)"
    using i di by (simp add: reindex_def lookup_flag_def)
  have "d \<in> set ?idx" using i di by (metis length_map nth_mem)
  then have "d \<in> date ` set pos" by (simp only: net_greeks_index) simp
  then show ?thesis by (simp add: row ez g dh vh)
qed

lemma net_greeks_df_dates: "ng_date ` set (net_greeks_df pos) = date ` set pos"
proof -
  let ?ng = "net_greeks pos"
  let ?idx = "map fst ?ng"
  have "map ng_date (net_greeks_df pos) = ?idx"
    by (rule nth_equalityI)
      (simp_all add: net_greeks_df_def Let_def reindex_def case_prod_unfold)
  then have "set (map ng_date (net_greeks_df pos)) = set ?idx" by simp
  then show ?thesis by (simp add: net_greeks_index)
qed

lemma total_spy_qty_keys:
  "map fst (total_spy_qty pos) = sort (remdups (map date (spy_opts pos)))"
  by (simp add: total_spy_qty_def groupby_sum_keys)

lemma total_spy_qty_nth:
  assumes "i < length (total_spy_qty pos)"
  shows "snd (total_spy_qty pos ! i) = signed_qty_on (spy_opts pos) (fst (total_spy_qty pos ! i))"
  using groupby_sum_nth [of i date qty_signed "spy_opts pos"] assms
  by (simp add: total_spy_qty_def signed_qty_on_def)

lemma fgt_Fin: "fgt (Fin x) (Fin y) \<longleftrightarrow> y < x"
  by (simp add: fgt_def)

lemma vega_flag_at:
  assumes ne: "spy_opts pos \<noteq> []" and i: "i < length (total_spy_qty pos)"
  defines "S \<equiv> total_spy_qty pos"
  shows "lookup_flag (vega_hedge_flags pos) (fst (S ! i)) \<longleftrightarrow>
         0 < i \<and> 1 / 10 ^ 8 < snd (S ! i) - snd (S ! (i - 1))"
proof -
  let ?F = "vega_hedge_flags pos"
  have F: "?F = map (\<lambda>(d, x). (d, fgt x (Fin (1 / 10 ^ 8)))) (diff S)"
    using ne by (simp add: vega_hedge_flags_def spy_qty_diff_def S_def)
  have keys: "map fst ?F = map fst S"
    by (simp add: F comp_def case_prod_unfold) (rule diff_keys [unfolded comp_def])
  have dist: "distinct (map fst ?F)"
    unfolding keys S_def by (simp only: total_spy_qty_keys) simp
  have iF: "i < length ?F" using i by (simp add: F diff_length S_def)
  have Fi: "?F ! i = (fst (S ! i), 0 < i \<and> 1 / 10 ^ 8 < snd (S ! i) - snd (S ! (i - 1)))"
    using i by (simp add: F diff_length diff_nth S_def fgt_def)
  from map_of_nth [OF dist iF] show ?thesis by (simp add: Fi lookup_flag_def)
qed

lemma vega_flag_absent:
  assumes "d \<notin> date ` set (spy_opts pos)"
  shows "\<not> lookup_flag (vega_hedge_flags pos) d"
proof (cases "spy_opts pos = []")
  case True
  then have "vega_hedge_flags pos = map (\<lambda>(d, x). (d, False)) (net_greeks pos)"
    by (simp add: vega_hedge_flags_def)
  then have "\<forall>b. (d, b) \<in> set (vega_hedge_flags pos) \<longrightarrow> \<not> b" by auto
  then show ?thesis
    by (auto simp: lookup_flag_def split: option.splits dest: map_of_SomeD)
next
  case False
  let ?F = "vega_hedge_flags pos"
  have F: "?F = map (\<lambda>(d, x). (d, fgt x (Fin (1 / 10 ^ 8)))) (diff (total_spy_qty pos))"
    using False by (simp add: vega_hedge_flags_def spy_qty_diff_def)
  have "map fst ?F = map fst (total_spy_qty pos)"
    by (simp add: F comp_def case_prod_unfold) (rule diff_keys [unfolded comp_def])
  then have "set (map fst ?F) = date ` set (spy_opts pos)"
    by (simp only: total_spy_qty_keys) simp
  with assms have "d \<notin> fst ` set ?F" by simp
  then have "map_of ?F d = None" by (simp add: map_of_eq_None_iff)
  then show ?thesis by (simp add: lookup_flag_def)
qed


lemma vega_flag_iff:
  "lookup_flag (vega_hedge_flags pos) d \<longleftrightarrow>
     d \<in> date ` set (spy_opts pos) \<and>
     (\<exists>p. prior_in (map date (spy_opts pos)) p d \<and>
          1 / 10 ^ 8 < signed_qty_on (spy_opts pos) d - signed_qty_on (spy_opts pos) p)"
proof (cases "d \<in> date ` set (spy_opts pos)")
  case False
  then show ?thesis using vega_flag_absent [of d pos] by simp
next
  case True
  let ?S = "total_spy_qty pos"
  let ?ks = "map fst ?S"
  have ne: "spy_opts pos \<noteq> []" using True by auto
  have ks_set: "set ?ks = date ` set (spy_opts pos)" by (simp only: total_spy_qty_keys) simp
  have strict: "sorted_wrt (<) ?ks"
    by (simp only: total_spy_qty_keys) (simp add: strict_sorted_iff)
  from True have "d \<in> set ?ks" by (simp only: ks_set)
  then obtain i where i: "i < length ?S" and di: "fst (?S ! i) = d"
    by (auto simp: in_set_conv_nth)
  have i': "i < length ?ks" using i by simp
  have ki: "?ks ! i = d" using i di by simp
  have vi: "snd (?S ! i) = signed_qty_on (spy_opts pos) d"
    using total_spy_qty_nth [OF i] by (simp add: di)
  have pr: "\<And>p. prior_in (map date (spy_opts pos)) p d \<longleftrightarrow> 0 < i \<and> p = fst (?S ! (i - 1))"
  proof -
    fix p
    have "set (map date (spy_opts pos)) = set ?ks" using ks_set by simp
    then have "prior_in (map date (spy_opts pos)) p d \<longleftrightarrow> prior_in ?ks p d"
      by (rule prior_in_cong)
    then have "prior_in (map date (spy_opts pos)) p d \<longleftrightarrow> prior_in ?ks p (?ks ! i)"
      by (simp only: ki)
    also have "\<dots> \<longleftrightarrow> 0 < i \<and> p = ?ks ! (i - 1)" by (rule prior_in_sorted [OF strict i'])
    also have "\<dots> \<longleftrightarrow> 0 < i \<and> p = fst (?S ! (i - 1))" using i by auto
    finally show "prior_in (map date (spy_opts pos)) p d \<longleftrightarrow> 0 < i \<and> p = fst (?S ! (i - 1))" .
  qed
  have vp: "0 < i \<Longrightarrow> snd (?S ! (i - 1)) = signed_qty_on (spy_opts pos) (fst (?S ! (i - 1)))"
    using total_spy_qty_nth [of "i - 1" pos] i by simp
  have "lookup_flag (vega_hedge_flags pos) d \<longleftrightarrow>
          0 < i \<and> 1 / 10 ^ 8 < snd (?S ! i) - snd (?S ! (i - 1))"
    using vega_flag_at [OF ne i] by (simp only: di)
  also have "\<dots> \<longleftrightarrow> (\<exists>p. prior_in (map date (spy_opts pos)) p d \<and>
          1 / 10 ^ 8 < signed_qty_on (spy_opts pos) d - signed_qty_on (spy_opts pos) p)"
    using vp by (auto simp: pr vi)
  finally show ?thesis using True by simp
qed

lemma spy_opts_dates: "map date (spy_opts pos) = spy_option_dates pos"
  by (simp add: spy_opts_def spy_option_dates_def)

lemma qty_signed_short:
  "qty_signed = (\<lambda>r. if type r = ''short'' then - quantity r else quantity r)"
  by (rule ext) (simp add: qty_signed_def sign_def)

lemma spy_opts_qty: "signed_qty_on (spy_opts pos) d = spy_option_qty pos d"
proof -
  have "filter (\<lambda>r. date r = d) (spy_opts pos) =
        filter (\<lambda>r. date r = d \<and> underlying r = ''SPY'' \<and> ticker r \<noteq> ''SPY_HEDGE_STOCK'') pos"
    by (simp add: spy_opts_def conj_commute)
  then show ?thesis
    by (simp only: signed_qty_on_def spy_option_qty_def qty_signed_short)
qed

lemma spy_opts_empty:
  "spy_opts pos = [] \<longleftrightarrow>
     (\<forall>r\<in>set pos. underlying r = ''SPY'' \<longrightarrow> ticker r = ''SPY_HEDGE_STOCK'')"
  by (auto simp: spy_opts_def filter_empty_conv)

text \<open>
  Claim C6. Every date \<open>d\<close> of the log has a row in \<^verbatim>\<open>net_greeks_df\<close>, and its vega-hedge
  flag is true iff the options on SPY (the records with underlying "SPY" and a ticker other
  than "SPY_HEDGE_STOCK") have a record on \<open>d\<close> and a record date \<open>p\<close> immediately before
  \<open>d\<close>, and the total of their quantities on \<open>d\<close>, short records counting negative, exceeds
  that on \<open>p\<close> by more than \<open>1e-8\<close>; so the first date with such a record is not flagged.
  When the log has no such record the flag is false on every date.
\<close>

theorem vega_flag_characterised:
  assumes "d \<in> date ` set pos"
  shows "(\<exists>row\<in>set (net_greeks_df pos). ng_date row = d) \<and>
         (\<forall>row\<in>set (net_greeks_df pos). ng_date row = d \<longrightarrow>
            (vega_hedge row \<longleftrightarrow>
               d \<in> set (spy_option_dates pos) \<and>
               (\<exists>p. prior_in (spy_option_dates pos) p d \<and>
                    1 / 10 ^ 8 < spy_option_qty pos d - spy_option_qty pos p))) \<and>
         ((\<forall>r\<in>set pos. underlying r = ''SPY'' \<longrightarrow> ticker r = ''SPY_HEDGE_STOCK'') \<longrightarrow>
            (\<forall>row\<in>set (net_greeks_df pos). \<not> vega_hedge row))"
proof (intro conjI ballI impI)
  show "\<exists>row\<in>set (net_greeks_df pos). ng_date row = d"
  proof -
    from assms have "d \<in> ng_date ` set (net_greeks_df pos)" by (simp only: net_greeks_df_dates)
    then show ?thesis by auto
  qed
next
  fix row assume "row \<in> set (net_greeks_df pos)" and "ng_date row = d"
  then have "vega_hedge row \<longleftrightarrow>
               d \<in> date ` set (spy_opts pos) \<and>
               (\<exists>p. prior_in (map date (spy_opts pos)) p d \<and>
                    1 / 10 ^ 8 < signed_qty_on (spy_opts pos) d - signed_qty_on (spy_opts pos) p)"
    using net_greeks_df_row [of row pos] vega_flag_iff [of pos d] by simp
  moreover have "date ` set (spy_opts pos) = set (spy_option_dates pos)"
    using spy_opts_dates [of pos] by (metis set_map)
  ultimately show "vega_hedge row \<longleftrightarrow>
               d \<in> set (spy_option_dates pos) \<and>
               (\<exists>p. prior_in (spy_option_dates pos) p d \<and>
                    1 / 10 ^ 8 < spy_option_qty pos d - spy_option_qty pos p)"
    by (simp only: spy_opts_dates spy_opts_qty)
next
  fix row
  assume "\<forall>r\<in>set pos. underlying r = ''SPY'' \<longrightarrow> ticker r = ''SPY_HEDGE_STOCK''"
    and "row \<in> set (net_greeks_df pos)"
  then show "\<not> vega_hedge row"
    using net_greeks_df_row [of row pos] vega_flag_absent [of "ng_date row" pos]
    by (simp add: spy_opts_empty [symmetric])
qed

theorem vega_flag_characterised_witness:
  "1 \<in> date ` set log_vega \<and> 2 \<in> date ` set log_vega \<and> 3 \<in> date ` set log_vega \<and>
   spy_option_qty log_vega 1 = 5 \<and> spy_option_qty log_vega 2 = 8 \<and>
   spy_option_qty log_vega 3 = 4 \<and>
   (\<exists>row. row \<in> set (net_greeks_df log_vega) \<and> ng_date row = 1 \<and> \<not> vega_hedge row) \<and>
   (\<exists>row. row \<in> set (net_greeks_df log_vega) \<and> ng_date row = 2 \<and> vega_hedge row) \<and>
   (\<exists>row. row \<in> set (net_greeks_df log_vega) \<and> ng_date row = 3 \<and> \<not> vega_hedge row)"
proof -
  have h1: "1 \<in> date ` set log_vega" and h2: "2 \<in> date ` set log_vega"
    and h3: "3 \<in> date ` set log_vega"
    by (simp_all add: log_vega_def)
  have ds: "spy_option_dates log_vega = [1, 2, 3, 3]"
    by (simp add: spy_option_dates_def log_vega_def)
  have q: "spy_option_qty log_vega 1 = 5" "spy_option_qty log_vega 2 = 8"
    "spy_option_qty log_vega 3 = 4"
    by (simp_all add: spy_option_qty_def log_vega_def)
  have p1: "\<not> (\<exists>p. prior_in (spy_option_dates log_vega) p 1)"
    by (simp add: ds prior_in_def)
  have p2: "prior_in (spy_option_dates log_vega) 1 2"
    by (simp add: ds prior_in_def)
  have p3: "\<And>p. prior_in (spy_option_dates log_vega) p 3 \<Longrightarrow> p = 2"
    by (auto simp: ds prior_in_def)
  have a1: "\<not> (1 \<in> set (spy_option_dates log_vega) \<and>
               (\<exists>p. prior_in (spy_option_dates log_vega) p 1 \<and>
                    1 / 10 ^ 8 < spy_option_qty log_vega 1 - spy_option_qty log_vega p))"
    using p1 by blast
  have a2: "2 \<in> set (spy_option_dates log_vega) \<and>
               (\<exists>p. prior_in (spy_option_dates log_vega) p 2 \<and>
                    1 / 10 ^ 8 < spy_option_qty log_vega 2 - spy_option_qty log_vega p)"
  proof -
    have "2 \<in> set (spy_option_dates log_vega)" by (simp add: ds)
    moreover have "1 / 10 ^ 8 < spy_option_qty log_vega 2 - spy_option_qty log_vega 1"
      by (simp only: q) simp
    ultimately show ?thesis using p2 by blast
  qed
  have a3: "\<not> (3 \<in> set (spy_option_dates log_vega) \<and>
               (\<exists>p. prior_in (spy_option_dates log_vega) p 3 \<and>
                    1 / 10 ^ 8 < spy_option_qty log_vega 3 - spy_option_qty log_vega p))"
  proof -
    have "\<not> 1 / 10 ^ 8 < spy_option_qty log_vega 3 - spy_option_qty log_vega 2"
      by (simp only: q) simp
    then show ?thesis using p3 by blast
  qed
  from vega_flag_characterised [OF h1] a1
  have r1: "\<exists>row. row \<in> set (net_greeks_df log_vega) \<and> ng_date row = 1 \<and> \<not> vega_hedge row"
    by blast
  from vega_flag_characterised [OF h2] a2
  have r2: "\<exists>row. row \<in> set (net_greeks_df log_vega) \<and> ng_date row = 2 \<and> vega_hedge row"
    by blast
  from vega_flag_characterised [OF h3] a3
  have r3: "\<exists>row. row \<in> set (net_greeks_df log_vega) \<and> ng_date row = 3 \<and> \<not> vega_hedge row"
    by blast
  show ?thesis using h1 h2 h3 q r1 r2 r3 by simp
qed

section \<open>Maximal drawdown\<close>

lemma dd_step_nonpos:
  assumes "0 < m"
  shows "\<forall>x\<in>set (map (\<lambda>(r, M). fsub (fdiv r M) (Fin 1))
                     (zip (map Fin xs) (cummax_from (Fin m) (map Fin xs)))). nonpos x"
  using assms
proof (induction xs arbitrary: m)
  case Nil
  then show ?case by simp
next
  case (Cons x xs)
  let ?M = "if m < x then x else m"
  have M: "0 < ?M" and xM: "x \<le> ?M" using Cons.prems by auto
  then have "x / ?M \<le> 1" by (simp add: divide_le_eq_1)
  then have hd: "nonpos (fsub (fdiv (Fin x) (Fin ?M)) (Fin 1))"
    using M by (simp add: nonpos_def fsub_def)
  have c: "cummax_from (Fin m) (map Fin (x # xs)) = Fin ?M # cummax_from (Fin ?M) (map Fin xs)"
    by (simp add: isna_def)
  show ?case using hd Cons.IH [OF M] by (simp only: c) simp
qed

lemma cummax_from_length: "length (cummax_from m xs) = length xs"
  by (induction xs arbitrary: m) simp_all

lemma rebased_Fin:
  assumes "es \<noteq> []" "hd es \<noteq> 0"
  shows "equity_rebased (map Fin es) = map Fin (map (\<lambda>e. e / hd es) es)"
  using assms by (cases es) (simp_all add: equity_rebased_def)

lemma dd_nonpos:
  assumes ne: "es \<noteq> []" and nz: "hd es \<noteq> 0"
  shows "dd (map Fin es) \<noteq> [] \<and> (\<forall>x\<in>set (dd (map Fin es)). nonpos x)"
proof -
  from ne obtain e es' where es: "es = e # es'" by (cases es) auto
  let ?rs = "map (\<lambda>x. x / e) es'"
  have e: "e \<noteq> 0" using nz by (simp add: es)
  have reb: "equity_rebased (map Fin es) = Fin 1 # map Fin ?rs"
    using e by (simp add: equity_rebased_def es comp_def)
  have cm: "cummax (Fin 1 # map Fin ?rs) = Fin 1 # cummax_from (Fin 1) (map Fin ?rs)"
    by (simp add: cummax_def isna_def)
  have d: "dd (map Fin es) = Fin 0 # map (\<lambda>(r, M). fsub (fdiv r M) (Fin 1))
                     (zip (map Fin ?rs) (cummax_from (Fin 1) (map Fin ?rs)))"
    by (simp only: dd_def rolling_max_def reb cm) (simp add: fsub_def)
  have "nonpos (Fin 0)" by (simp add: nonpos_def)
  then show ?thesis using dd_step_nonpos [of 1 ?rs] by (simp only: d) simp
qed

lemma fmin_list_mem: "fmin_list m xs \<in> set (m # xs)"
  by (induction xs arbitrary: m) auto

lemma nanmin_nonpos:
  assumes "xs \<noteq> []" and "\<forall>x\<in>set xs. nonpos x"
  shows "nonpos (nanmin xs)"
proof -
  have "dropna xs = xs"
    using assms(2) by (auto simp: dropna_def isna_def nonpos_def filter_id_conv)
  moreover obtain y ys where xs: "xs = y # ys" using assms(1) by (cases xs) auto
  ultimately have "nanmin xs = fmin_list y ys" by (simp add: nanmin_def)
  then have "nanmin xs \<in> set xs" using fmin_list_mem [of y ys] by (simp add: xs)
  with assms(2) show ?thesis by simp
qed

lemma max_dd_nonpos:
  assumes "es \<noteq> []" and "hd es \<noteq> 0"
  shows "\<exists>m. max_dd (map Fin es) = Fin m \<and> m \<le> 0"
proof -
  from dd_nonpos [OF assms] have "nonpos (nanmin (dd (map Fin es)))"
    by (intro nanmin_nonpos) simp_all
  then show ?thesis using dd_nonpos [OF assms] by (simp add: max_dd_def nonpos_def)
qed

lemma equity_all_fin:
  assumes "equity_all pos = Inr eq"
  shows "\<forall>e\<in>set eq. isfin (snd e)"
proof -
  from assms obtain c where c: "capital_base_all pos = Inr c"
    by (cases "capital_base_all pos") (simp_all add: equity_all_def)
  from total_pnl_fin obtain ps where ps: "map snd (daily_total_pnl_all pos) = map Fin ps" by blast
  let ?vals = "map (fadd (Fin c)) (cumsum (map snd (daily_total_pnl_all pos)))"
  have eq: "eq = zip (map fst (daily_total_pnl_all pos)) ?vals"
    using assms by (simp add: equity_all_def c)
  have "snd ` set eq \<subseteq> set ?vals" unfolding eq by (auto dest: set_zip_rightD)
  moreover have "\<forall>v\<in>set ?vals. isfin v" by (simp only: equity_values [OF ps]) auto
  ultimately show ?thesis by auto
qed

lemma equity_window_fin:
  assumes "equity_window pos date_range = Inr w"
  shows "\<exists>es. map snd w = map Fin es"
proof -
  from assms obtain eq where eq: "equity_all pos = Inr eq"
    by (cases "equity_all pos") (simp_all add: equity_window_def)
  have "set w \<subseteq> set eq" using assms by (auto simp: equity_window_def eq)
  with equity_all_fin [OF eq] have "\<forall>v\<in>set (map snd w). isfin v" by auto
  then show ?thesis by (rule all_fin_map)
qed

text \<open>
  Claim C9, amended. On an empty window the script stops with the error of an empty window
  and no drawdown is computed. On a window that is not empty and whose first equity value
  is not zero, the maximal drawdown, the minimum over the window of rebased equity over its
  running maximum minus one, is a number at most 0.
\<close>

theorem max_drawdown_nonpos:
  assumes "equity_window pos date_range = Inr w"
  shows "(w = [] \<longrightarrow> window_metrics pos date_range = Inl EmptyWindow) \<and>
         (w \<noteq> [] \<and> snd (hd w) \<noteq> Fin 0 \<longrightarrow>
            (\<exists>s m. window_metrics pos date_range = Inr (s, Fin m) \<and> m \<le> 0 \<and>
                   max_dd (map snd w) = Fin m))"
proof (intro conjI impI)
  assume "w = []"
  then show "window_metrics pos date_range = Inl EmptyWindow"
    by (simp add: window_metrics_def assms)
next
  assume h: "w \<noteq> [] \<and> snd (hd w) \<noteq> Fin 0"
  from equity_window_fin [OF assms] obtain es where es: "map snd w = map Fin es" by blast
  have ne: "es \<noteq> []" using h es by auto
  have "snd (hd w) = Fin (hd es)" using h ne es by (cases w; cases es) auto
  then have nz: "hd es \<noteq> 0" using h by auto
  from max_dd_nonpos [OF ne nz] obtain m where m: "max_dd (map Fin es) = Fin m" "m \<le> 0"
    by blast
  have "window_metrics pos date_range = Inr (sharpe_3m (map snd w), Fin m)"
    using h m by (simp add: window_metrics_def assms es)
  with m es show "\<exists>s m. window_metrics pos date_range = Inr (s, Fin m) \<and> m \<le> 0 \<and>
                   max_dd (map snd w) = Fin m" by auto
qed

theorem max_drawdown_nonpos_witness:
  "equity_window log_wipeout (1, 3) = Inr [(1, Fin 1000), (2, Fin 0), (3, Fin 500)] \<and>
   (\<exists>s. window_metrics log_wipeout (1, 3) = Inr (s, Fin (- 1)))"
proof -
  have w: "equity_window log_wipeout (1, 3) = Inr [(1, Fin 1000), (2, Fin 0), (3, Fin 500)]"
    by code_simp
  have m: "max_dd [Fin 1000, Fin 0, Fin 500] = Fin (- 1)" by code_simp
  show ?thesis using max_drawdown_nonpos [OF w] w m by auto
qed

text \<open>
  The claim as stated fails on a window that starts on a date of zero equity: the window
  of days 2 and 3 is not empty, its rebased values are \<open>0 / 0\<close> and \<open>500 / 0\<close>, and its maximal
  drawdown is NaN, not a number at most 0.
\<close>

theorem drawdown_counterexample:
  "equity_window log_wipeout (2, 3) = Inr [(2, Fin 0), (3, Fin 500)] \<and>
   window_metrics log_wipeout (2, 3) = Inr (NaN, NaN) \<and>
   \<not> (\<exists>m. max_dd [Fin 0, Fin 500] = Fin m \<and> m \<le> 0)"
proof -
  have w: "equity_window log_wipeout (2, 3) = Inr [(2, Fin 0), (3, Fin 500)]" by code_simp
  have m: "max_dd [Fin 0, Fin 500] = NaN" by code_simp
  have s: "sharpe_3m [Fin 0, Fin 500] = NaN"
    by (simp add: sharpe_3m_def daily_ret_def pct_change_def equity_rebased_def dropna_def
        isna_def fsub_def)
  show ?thesis by (simp add: window_metrics_def w m s)
qed

section \<open>Sharpe ratio\<close>

lemma fsum_Fin: "fsum (map Fin rs) = Fin (sum_list rs)"
  by (induction rs) simp_all

lemma fadd_Fin_iff: "fadd x y = Fin a \<longleftrightarrow> (\<exists>u v. x = Fin u \<and> y = Fin v \<and> a = u + v)"
  by (cases x; cases y) auto

lemma fadd_PInf: "fadd x y = PInf \<Longrightarrow> x = PInf \<or> y = PInf"
  by (cases x; cases y) auto

lemma fadd_NInf: "fadd x y = NInf \<Longrightarrow> x = NInf \<or> y = NInf"
  by (cases x; cases y) auto

lemma fadd_NaN_right: "fadd x NaN = NaN"
  by (cases x) simp_all

lemma fdiv_NaN_right: "fdiv x NaN = NaN"
  by (cases x) simp_all

lemma fsum_Fin_all: "fsum xs = Fin a \<Longrightarrow> \<forall>x\<in>set xs. isfin x"
  by (induction xs arbitrary: a) (auto simp: fadd_Fin_iff)

lemma fsum_PInf: "fsum xs = PInf \<Longrightarrow> PInf \<in> set xs"
  by (induction xs) (auto dest: fadd_PInf)

lemma fsum_NInf: "fsum xs = NInf \<Longrightarrow> NInf \<in> set xs"
  by (induction xs) (auto dest: fadd_NInf)

lemma fsum_NaN_mem: "NaN \<in> set xs \<Longrightarrow> fsum xs = NaN"
  by (induction xs) (auto simp: fadd_NaN_right)

lemma dropna_Fin: "dropna (map Fin rs) = map Fin rs"
  by (simp add: dropna_def isna_def filter_id_conv)

lemma dropna_idem: "dropna (dropna xs) = dropna xs"
  by (simp add: dropna_def)

lemma dropna_no_NaN: "NaN \<notin> set (dropna xs)"
  by (simp add: dropna_def isna_def)

text \<open>All returns finite.\<close>

lemma mean_Fin:
  assumes "rs \<noteq> []"
  shows "mean (map Fin rs) = Fin (sum_list rs / real (length rs))"
  using assms by (simp add: mean_def dropna_Fin fsum_Fin Let_def)

lemma var_Fin:
  assumes "2 \<le> length rs"
  shows "var (map Fin rs) =
     Fin (sum_list (map (\<lambda>x. (sum_list rs / real (length rs) - x) * (sum_list rs / real (length rs) - x)) rs)
          / real (length rs - 1))"
proof -
  have ne: "rs \<noteq> []" using assms by auto
  let ?m = "sum_list rs / real (length rs)"
  have "map (\<lambda>x. fmul (fsub (Fin ?m) x) (fsub (Fin ?m) x)) (map Fin rs)
      = map Fin (map (\<lambda>x. (?m - x) * (?m - x)) rs)"
    by (simp add: fsub_def comp_def)
  then have "fsum (map (\<lambda>x. fmul (fsub (Fin ?m) x) (fsub (Fin ?m) x)) (map Fin rs))
      = Fin (sum_list (map (\<lambda>x. (?m - x) * (?m - x)) rs))"
    by (simp only: fsum_Fin)
  then show ?thesis using assms
    by (simp add: var_def Let_def dropna_Fin mean_Fin [OF ne])
qed

lemma sum_squares_nonneg: "0 \<le> sum_list (map (\<lambda>x. (m - x) * (m - x)) (rs :: real list))"
  by (induction rs) simp_all

lemma std_Fin:
  assumes "2 \<le> length rs"
  shows "std (map Fin rs) =
     Fin (sqrt (sum_list (map (\<lambda>x. (sum_list rs / real (length rs) - x) * (sum_list rs / real (length rs) - x)) rs)
          / real (length rs - 1)))"
  using assms sum_squares_nonneg [of "sum_list rs / real (length rs)" rs]
  by (simp add: std_def var_Fin)

text \<open>Some return infinite.\<close>

lemma fdiv_count:
  assumes "0 < n"
  shows "fdiv x (Fin n) = (case x of Fin a \<Rightarrow> Fin (a / n) | PInf \<Rightarrow> PInf | NInf \<Rightarrow> NInf | NaN \<Rightarrow> NaN)"
  using assms by (cases x) simp_all

lemma var_infinite:
  assumes nn: "NaN \<notin> set ys" and inf: "\<exists>y\<in>set ys. \<not> isfin y"
  shows "var ys = NaN"
proof (cases "length ys \<le> 1")
  case True
  have "dropna ys = ys" using nn by (auto simp: dropna_def isna_def filter_id_conv)
  then show ?thesis using True by (simp add: var_def Let_def)
next
  case False
  have dy: "dropna ys = ys" using nn by (auto simp: dropna_def isna_def filter_id_conv)
  let ?n = "real (length ys)"
  have n: "0 < ?n" using False by (cases ys) simp_all
  have avg: "mean ys = fdiv (fsum ys) (Fin ?n)" by (simp add: mean_def Let_def dy)
  have nf: "\<not> isfin (fsum ys)"
  proof
    assume "isfin (fsum ys)"
    then obtain a where "fsum ys = Fin a" by (cases "fsum ys") simp_all
    from fsum_Fin_all [OF this] inf show False by auto
  qed
  let ?sq = "map (\<lambda>x. fmul (fsub (mean ys) x) (fsub (mean ys) x)) ys"
  have "NaN \<in> set ?sq"
  proof (cases "fsum ys")
    case (Fin a)
    with nf show ?thesis by simp
  next
    case PInf
    then have m: "mean ys = PInf" using n by (simp add: avg)
    from fsum_PInf [OF PInf] have "fmul (fsub (mean ys) PInf) (fsub (mean ys) PInf) \<in> set ?sq"
      by auto
    then show ?thesis by (simp add: m fsub_def)
  next
    case NInf
    then have m: "mean ys = NInf" using n by (simp add: avg)
    from fsum_NInf [OF NInf] have "fmul (fsub (mean ys) NInf) (fsub (mean ys) NInf) \<in> set ?sq"
      by auto
    then show ?thesis by (simp add: m fsub_def)
  next
    case NaN
    then have m: "mean ys = NaN" by (simp add: avg)
    from False obtain y where "y \<in> set ys" by (cases ys) auto
    then have "fmul (fsub (mean ys) y) (fsub (mean ys) y) \<in> set ?sq"
      by auto
    then show ?thesis by (simp add: m fsub_def)
  qed
  then have "fsum ?sq = NaN" by (rule fsum_NaN_mem)
  then show ?thesis using False by (simp add: var_def Let_def dy)
qed


lemma square_swap: "(m - x) * (m - x) = (x - m)\<^sup>2" for m x :: real
  by (simp add: power2_eq_square algebra_simps)

lemma mean_std_finite:
  assumes "2 \<le> length rs"
  shows "mean (map Fin rs) = Fin (mean_of rs)" "std (map Fin rs) = Fin (stdev_of rs)"
proof -
  have "rs \<noteq> []" using assms by auto
  then show "mean (map Fin rs) = Fin (mean_of rs)" by (simp add: mean_Fin mean_of_def)
  show "std (map Fin rs) = Fin (stdev_of rs)"
    by (simp only: std_Fin [OF assms] stdev_of_def mean_of_def square_swap)
qed

lemma std_cases:
  assumes "NaN \<notin> set ys"
  shows "(\<exists>rs. ys = map Fin rs \<and> 2 \<le> length rs) \<or> std ys = NaN"
proof (cases "\<forall>y\<in>set ys. isfin y")
  case True
  then obtain rs where rs: "ys = map Fin rs" using all_fin_map by blast
  show ?thesis
  proof (cases "2 \<le> length rs")
    case True
    with rs show ?thesis by blast
  next
    case False
    then have "var ys = NaN" by (simp add: var_def Let_def rs dropna_Fin)
    then show ?thesis by (simp add: std_def)
  qed
next
  case False
  then have "var ys = NaN" using assms by (intro var_infinite) auto
  then show ?thesis by (simp add: std_def)
qed

text \<open>
  Claim C5. When the window has at least two daily returns and their standard deviation is
  a number other than zero, all returns are finite numbers and the Sharpe ratio is their
  mean over their sample standard deviation times the square root of 252. In every other
  case (fewer than two returns, a standard deviation of zero, or an undefined one) the
  result is NaN. It is never an infinity.
\<close>

theorem sharpe_defined_or_nan:
  "(if 2 \<le> length (daily_ret ew) \<and> (\<exists>s. std (daily_ret ew) = Fin s \<and> s \<noteq> 0)
    then \<exists>rs. daily_ret ew = map Fin rs \<and> stdev_of rs \<noteq> 0 \<and>
              mean (daily_ret ew) = Fin (mean_of rs) \<and> std (daily_ret ew) = Fin (stdev_of rs) \<and>
              sharpe_3m ew = Fin (mean_of rs / stdev_of rs * sqrt 252)
    else sharpe_3m ew = NaN) \<and>
   sharpe_3m ew \<noteq> PInf \<and> sharpe_3m ew \<noteq> NInf"
proof -
  let ?r = "daily_ret ew"
  have nn: "NaN \<notin> set ?r" by (simp add: daily_ret_def dropna_no_NaN)
  have main: "if 2 \<le> length ?r \<and> (\<exists>s. std ?r = Fin s \<and> s \<noteq> 0)
    then \<exists>rs. ?r = map Fin rs \<and> stdev_of rs \<noteq> 0 \<and>
              mean ?r = Fin (mean_of rs) \<and> std ?r = Fin (stdev_of rs) \<and>
              sharpe_3m ew = Fin (mean_of rs / stdev_of rs * sqrt 252)
    else sharpe_3m ew = NaN"
  proof (cases "2 \<le> length ?r \<and> (\<exists>s. std ?r = Fin s \<and> s \<noteq> 0)")
    case True
    then obtain s where s: "std ?r = Fin s" "s \<noteq> 0" by blast
    with std_cases [OF nn] obtain rs where rs: "?r = map Fin rs" "2 \<le> length rs" by auto
    note ms = mean_std_finite [OF rs(2), folded rs(1)]
    have sd: "stdev_of rs \<noteq> 0" using s ms(2) by simp
    have "sharpe_3m ew = Fin (mean_of rs / stdev_of rs * sqrt 252)"
      using True sd by (simp add: sharpe_3m_def ms fne_def isna_def)
    with True rs sd ms show ?thesis by auto
  next
    case False
    show ?thesis
    proof (cases "length ?r > 1 \<and> fne (std ?r) (Fin 0)")
      case g: True
      with False have nofin: "\<not> (\<exists>s. std ?r = Fin s \<and> s \<noteq> 0)" by auto
      from std_cases [OF nn] have "std ?r = NaN"
      proof
        assume "\<exists>rs. ?r = map Fin rs \<and> 2 \<le> length rs"
        then obtain rs where rs: "?r = map Fin rs" "2 \<le> length rs" by blast
        note ms = mean_std_finite [OF rs(2), folded rs(1)]
        with g nofin show ?thesis by (auto simp: fne_def isna_def)
      qed
      then have "sharpe_3m ew = NaN" using g by (simp add: sharpe_3m_def fdiv_NaN_right)
      with False show ?thesis by simp
    next
      case False
      then have "sharpe_3m ew = NaN" by (simp only: sharpe_3m_def if_False)
      with \<open>\<not> (2 \<le> length ?r \<and> (\<exists>s. std ?r = Fin s \<and> s \<noteq> 0))\<close> show ?thesis by simp
    qed
  qed
  then have "sharpe_3m ew \<noteq> PInf \<and> sharpe_3m ew \<noteq> NInf" by (auto split: if_splits)
  with main show ?thesis by blast
qed

lemma example_returns: "daily_ret window_example = map Fin [1 / 10, 1 / 5, 3 / 10]"
  by (simp add: window_example_def daily_ret_def pct_change_def equity_rebased_def dropna_def
      isna_def fsub_def)

lemma example_stdev: "stdev_of [1 / 10, 1 / 5, 3 / 10] = 1 / 10"
proof -
  have "stdev_of [1 / 10, 1 / 5, 3 / 10] = sqrt ((1 / 10)\<^sup>2)"
    by (simp add: stdev_of_def mean_of_def power2_eq_square)
  then show ?thesis by simp
qed

theorem sharpe_defined_or_nan_witness:
  "daily_ret window_example = map Fin [1 / 10, 1 / 5, 3 / 10] \<and>
   std (daily_ret window_example) = Fin (1 / 10) \<and>
   sharpe_3m window_example = Fin (2 * sqrt 252) \<and>
   sharpe_3m [Fin 1000, Fin 1100] = NaN"
proof -
  have r: "daily_ret window_example = map Fin [1 / 10, 1 / 5, 3 / 10]" by (rule example_returns)
  have sd: "std (daily_ret window_example) = Fin (1 / 10)"
    using mean_std_finite(2) [of "[1 / 10, 1 / 5, 3 / 10]"] by (simp add: r example_stdev)
  have "2 \<le> length (daily_ret window_example)" by (simp add: r)
  moreover have "std (daily_ret window_example) = Fin (1 / 10) \<and> (1 / 10 :: real) \<noteq> 0"
    using sd by simp
  ultimately have c: "2 \<le> length (daily_ret window_example) \<and>
           (\<exists>s. std (daily_ret window_example) = Fin s \<and> s \<noteq> 0)"
    by blast
  from sharpe_defined_or_nan [of window_example] c
  obtain rs where rs: "daily_ret window_example = map Fin rs"
    and sh: "sharpe_3m window_example = Fin (mean_of rs / stdev_of rs * sqrt 252)"
    by auto
  have "map Fin rs = map Fin [1 / 10, 1 / 5, 3 / 10]" using rs r by simp
  then have rs': "rs = [1 / 10, 1 / 5, 3 / 10]"
    by (rule map_injective) (simp add: inj_on_def)
  have s1: "sharpe_3m window_example = Fin (2 * sqrt 252)"
    by (simp add: sh rs' example_stdev) (simp add: mean_of_def)
  have l: "\<not> (2 \<le> length (daily_ret [Fin 1000, Fin 1100]))"
    by (simp add: daily_ret_def pct_change_def equity_rebased_def dropna_def isna_def fsub_def)
  have s2: "sharpe_3m [Fin 1000, Fin 1100] = NaN"
    using sharpe_defined_or_nan [of "[Fin 1000, Fin 1100]"] l by simp
  show ?thesis using r sd s1 s2 by simp
qed

end
